theory Spec2Isabelle
  imports Complex_Main "HOL-Library.Multiset" "HOL-Library.Char_ord" "HOL-Library.List_Lexorder"
begin

section \<open>Numbers of the indicator table\<close>

text \<open>
  The strategy reads \<open>close\<close>, \<open>sma_20\<close> and \<open>rsi\<close> from the last row of a pandas table.
  The rolling mean and the RSI are NaN while their windows warm up (and the RSI is NaN when
  the window has neither gain nor loss), so an indicator value is either NaN or a number.
  Every comparison with NaN is False, as in Python. Finite values are modelled as reals:
  rounding of binary floating point is not part of the model. The close of a candle comes
  from the exchange and is a number.
\<close>

datatype pyfloat = NaN | Num real

fun is_nan :: "pyfloat \<Rightarrow> bool" where
  "is_nan NaN = True"
| "is_nan (Num _) = False"

fun flt :: "pyfloat \<Rightarrow> pyfloat \<Rightarrow> bool" where
  "flt (Num a) (Num b) = (a < b)"
| "flt _ _ = False"

fun fgt :: "pyfloat \<Rightarrow> pyfloat \<Rightarrow> bool" where
  "fgt (Num a) (Num b) = (a > b)"
| "fgt _ _ = False"

section \<open>The Trend-RSI strategy (okx\_bot/strategies/trend\_rsi.py)\<close>

record row =
  close :: real
  sma_20 :: pyfloat
  rsi :: pyfloat

datatype phase = LONG | SHORT

datatype signal = BUY | SELL

text \<open>
  \<open>position\<close> is \<open>None\<close>, \<open>'LONG'\<close> or \<open>'SHORT'\<close> in the source; \<open>None\<close> is the FLAT phase.
  \<open>df\<close> is \<open>None\<close> until the first successful update.
\<close>

record strategy =
  strat_symbol :: string
  df :: "row list option"
  position :: "phase option"
  entry_price :: real
  sl_pct :: real
  tp_pct :: real
  rsi_buy_thresh :: real
  rsi_sell_thresh :: real

text \<open>The constructor \<open>TrendRSIStrategy(client, symbol, timeframe)\<close>.\<close>

definition TrendRSIStrategy :: "string \<Rightarrow> strategy" where
  "TrendRSIStrategy smb =
     \<lparr>strat_symbol = smb, df = None, position = None, entry_price = 0,
      sl_pct = 3 / 100, tp_pct = 6 / 100, rsi_buy_thresh = 30, rsi_sell_thresh = 70\<rparr>"

text \<open>
  \<open>update\<close>: the candle fetch and the pandas computation of the indicator columns are
  outside the model; their outcome is the input \<open>fetched\<close>. \<open>None\<close> is a failed or empty
  fetch, which leaves the table as it was.
\<close>

definition update :: "row list option \<Rightarrow> strategy \<Rightarrow> strategy" where
  "update fetched s =
     (case fetched of
        None \<Rightarrow> s
      | Some rows \<Rightarrow> if rows = [] then s else s\<lparr>df := Some rows\<rparr>)"

text \<open>The three exit tests of a long position and of a short position, in source order.\<close>

definition long_stop_loss :: "strategy \<Rightarrow> row \<Rightarrow> bool" where
  "long_stop_loss s r = (close r \<le> entry_price s * (1 - sl_pct s))"

definition long_take_profit :: "strategy \<Rightarrow> row \<Rightarrow> bool" where
  "long_take_profit s r = (close r \<ge> entry_price s * (1 + tp_pct s))"

definition long_rsi_exit :: "strategy \<Rightarrow> row \<Rightarrow> bool" where
  "long_rsi_exit s r = fgt (rsi r) (Num (rsi_sell_thresh s))"

definition short_stop_loss :: "strategy \<Rightarrow> row \<Rightarrow> bool" where
  "short_stop_loss s r = (close r \<ge> entry_price s * (1 + sl_pct s))"

definition short_take_profit :: "strategy \<Rightarrow> row \<Rightarrow> bool" where
  "short_take_profit s r = (close r \<le> entry_price s * (1 - tp_pct s))"

definition short_rsi_exit :: "strategy \<Rightarrow> row \<Rightarrow> bool" where
  "short_rsi_exit s r = flt (rsi r) (Num (rsi_buy_thresh s))"

definition long_entry :: "strategy \<Rightarrow> row \<Rightarrow> bool" where
  "long_entry s r = (fgt (Num (close r)) (sma_20 r) \<and> flt (rsi r) (Num (rsi_buy_thresh s)))"

definition short_entry :: "strategy \<Rightarrow> row \<Rightarrow> bool" where
  "short_entry s r = (flt (Num (close r)) (sma_20 r) \<and> fgt (rsi r) (Num (rsi_sell_thresh s)))"

text \<open>
  The exit blocks of \<open>check_signals\<close>: \<open>if self.position == 'LONG'\<close> and then
  \<open>if self.position == 'SHORT'\<close>, each with three tests that clear the position and return.
\<close>

definition exit_signals :: "strategy \<Rightarrow> row \<Rightarrow> signal option \<times> strategy" where
  "exit_signals s r =
     (if position s = Some LONG \<and>
         (long_stop_loss s r \<or> long_take_profit s r \<or> long_rsi_exit s r)
      then (Some SELL, s\<lparr>position := None\<rparr>)
      else if position s = Some SHORT \<and>
         (short_stop_loss s r \<or> short_take_profit s r \<or> short_rsi_exit s r)
      then (Some BUY, s\<lparr>position := None\<rparr>)
      else (None, s))"

text \<open>
  \<open>check_signals\<close> returns the signal and the strategy as the call leaves it. The entry
  block runs only without a position and returns at once when it enters; otherwise control
  falls through to the exit blocks.
\<close>

definition check_signals :: "strategy \<Rightarrow> signal option \<times> strategy" where
  "check_signals s =
     (case df s of
        None \<Rightarrow> (None, s)
      | Some rows \<Rightarrow>
          if length rows < 2 then (None, s)
          else
            let curr = last rows in
            if position s = None then
              (if long_entry s curr
               then (Some BUY, s\<lparr>position := Some LONG, entry_price := close curr\<rparr>)
               else if short_entry s curr
               then (Some SELL, s\<lparr>position := Some SHORT, entry_price := close curr\<rparr>)
               else exit_signals s curr)
            else exit_signals s curr)"

text \<open>The row that \<open>check_signals\<close> evaluates, when it evaluates one.\<close>

definition evaluated_row :: "strategy \<Rightarrow> row option" where
  "evaluated_row s =
     (case df s of None \<Rightarrow> None
      | Some rows \<Rightarrow> if length rows < 2 then None else Some (last rows))"

text \<open>
  \<open>get_next_action\<close> describes, for the status display and the log, what the next call
  of \<open>check_signals\<close> will do. The source returns a formatted message; the model keeps
  which message it is and drops the numbers printed in it.
\<close>

datatype action =
    Initializing | LongEntrySignal | ShortEntrySignal | WaitingForSignal
  | ExitStopLoss | ExitTakeProfit | ExitRsi | Holding | Idle

definition get_next_action :: "strategy \<Rightarrow> row \<Rightarrow> action" where
  "get_next_action s r =
     (if is_nan (sma_20 r) \<or> is_nan (rsi r) then Initializing
      else if position s = None then
        (if long_entry s r then LongEntrySignal
         else if short_entry s r then ShortEntrySignal
         else WaitingForSignal)
      else if position s = Some LONG then
        (if long_stop_loss s r then ExitStopLoss
         else if long_take_profit s r then ExitTakeProfit
         else if long_rsi_exit s r then ExitRsi
         else Holding)
      else if position s = Some SHORT then
        (if short_stop_loss s r then ExitStopLoss
         else if short_take_profit s r then ExitTakeProfit
         else if short_rsi_exit s r then ExitRsi
         else Holding)
      else Idle)"


subsection \<open>Concrete strategies and rows\<close>

definition warmup_row :: row where
  "warmup_row = \<lparr>close = 90, sma_20 = NaN, rsi = NaN\<rparr>"

definition long_at_100 :: strategy where
  "long_at_100 = (TrendRSIStrategy ''ETH/USDT'')
     \<lparr>df := Some [warmup_row, warmup_row], position := Some LONG, entry_price := 100\<rparr>"

definition dip_row :: row where
  "dip_row = \<lparr>close = 90, sma_20 = Num 80, rsi = Num 20\<rparr>"

definition long_on_dip :: strategy where
  "long_on_dip = (TrendRSIStrategy ''ETH/USDT'')
     \<lparr>df := Some [dip_row, dip_row], position := Some LONG, entry_price := 100\<rparr>"

definition flat_on_dip :: strategy where
  "flat_on_dip = (TrendRSIStrategy ''ETH/USDT'')\<lparr>df := Some [dip_row, dip_row]\<rparr>"

section \<open>The FIFO ledger (okx\_bot/server.py, calculate\_daily\_realized\_pnl)\<close>

text \<open>
  A trade record is the dict that \<open>execute_order\<close> stores. Its \<open>time\<close> is a string in
  every record the controller writes; the ledger also accepts a number of milliseconds.
  The key \<open>symbol\<close> may be missing (\<open>t.get('symbol', 'BTC/USDT')\<close>). Prices and amounts
  are floats, modelled as reals.
\<close>

datatype pytime = TStr string | TNum int

record trade =
  time :: pytime
  side :: string
  price :: real
  amount :: real
  symbol :: "string option"

text \<open>An inventory batch \<open>{'price': .., 'amount': ..}\<close>.\<close>

record batch =
  b_price :: real
  b_amount :: real

text \<open>
  The calendar is outside the program: \<open>today\<close> is \<open>datetime.now().date()\<close>,
  \<open>fromisoformat s\<close> is the date of \<open>datetime.fromisoformat(s)\<close>, or \<open>None\<close> when that raises
  ValueError, and \<open>fromtimestamp n\<close> is the date of \<open>datetime.fromtimestamp(n / 1000)\<close>,
  or \<open>None\<close> when that raises.
\<close>

type_synonym date = "nat \<times> nat \<times> nat"

record calendar =
  today :: date
  fromisoformat :: "string \<Rightarrow> date option"
  fromtimestamp :: "int \<Rightarrow> date option"

text \<open>\<open>str.upper\<close> on ASCII letters.\<close>

definition upper_char :: "char \<Rightarrow> char" where
  "upper_char ch =
     (if CHR ''a'' \<le> ch \<and> ch \<le> CHR ''z'' then char_of (of_char ch - (32::nat)) else ch)"

definition upper :: "string \<Rightarrow> string" where
  "upper s = map upper_char s"

text \<open>
  \<open>sorted(self.trades, key=lambda x: x['time'])\<close>. Python's sort is stable, strings compare
  by code point and numbers by value; comparing a string with a number raises TypeError,
  which some comparison does as soon as the keys of a list are of both kinds. \<open>None\<close> is
  that exception.
\<close>

fun is_str :: "pytime \<Rightarrow> bool" where
  "is_str (TStr _) = True"
| "is_str (TNum _) = False"

definition str_key :: "trade \<Rightarrow> string" where
  "str_key t = (case time t of TStr s \<Rightarrow> s | TNum _ \<Rightarrow> [])"

definition num_key :: "trade \<Rightarrow> int" where
  "num_key t = (case time t of TStr _ \<Rightarrow> 0 | TNum n \<Rightarrow> n)"

definition sorted_trades :: "trade list \<Rightarrow> trade list option" where
  "sorted_trades ts =
     (if list_all (\<lambda>t. is_str (time t)) ts then Some (sort_key str_key ts)
      else if list_all (\<lambda>t. \<not> is_str (time t)) ts then Some (sort_key num_key ts)
      else None)"

text \<open>
  Reading the time of a record: a string that does not parse makes the loop \<open>continue\<close>
  (the record is skipped); a number that cannot be converted raises out of the loop.
\<close>

datatype parsed = Skipped | Raised | Dated date

definition parse_time :: "calendar \<Rightarrow> pytime \<Rightarrow> parsed" where
  "parse_time c ts =
     (case ts of
        TStr s \<Rightarrow> (case fromisoformat c s of None \<Rightarrow> Skipped | Some d \<Rightarrow> Dated d)
      | TNum n \<Rightarrow> (case fromtimestamp c n of None \<Rightarrow> Raised | Some d \<Rightarrow> Dated d))"

text \<open>
  The inner loop \<open>while qty_to_fill > 0 and inventory\<close>, on the quantity still to fill, the
  cost basis so far and the inventory of the symbol. It returns the three as the loop
  leaves them.
\<close>

fun consume :: "real \<Rightarrow> real \<Rightarrow> batch list \<Rightarrow> real \<times> real \<times> batch list" where
  "consume qty_to_fill cost_basis [] = (qty_to_fill, cost_basis, [])"
| "consume qty_to_fill cost_basis (b # inventory) =
     (if qty_to_fill > 0 then
        (if b_amount b > qty_to_fill
         then (0, cost_basis + b_price b * qty_to_fill,
               b\<lparr>b_amount := b_amount b - qty_to_fill\<rparr> # inventory)
         else consume (qty_to_fill - b_amount b) (cost_basis + b_price b * b_amount b) inventory)
      else (qty_to_fill, cost_basis, b # inventory))"

type_synonym inventories = "string \<Rightarrow> batch list option"

definition trade_symbol :: "trade \<Rightarrow> string" where
  "trade_symbol t = (case symbol t of None \<Rightarrow> ''BTC/USDT'' | Some s \<Rightarrow> s)"

text \<open>
  The body of \<open>for t in sorted_trades\<close> on the inventories and the running daily sum.
  \<open>None\<close> is an exception raised out of the loop.
\<close>

definition trade_step ::
  "calendar \<Rightarrow> trade \<Rightarrow> inventories \<times> real \<Rightarrow> (inventories \<times> real) option" where
  "trade_step c t st =
     (case parse_time c (time t) of
        Skipped \<Rightarrow> Some st
      | Raised \<Rightarrow> None
      | Dated d \<Rightarrow>
          let is_today = (d = today c);
              inventory = (case fst st (trade_symbol t) of None \<Rightarrow> [] | Some lots \<Rightarrow> lots)
          in if upper (side t) = ''BUY'' then
               Some ((fst st)(trade_symbol t \<mapsto>
                       inventory @ [\<lparr>b_price = price t, b_amount = amount t\<rparr>]), snd st)
             else if upper (side t) = ''SELL'' then
               (case consume (amount t) 0 inventory of
                  (qty_to_fill, cost_basis, inventory') \<Rightarrow>
                    let cost_basis' = (if qty_to_fill > 0 then cost_basis + price t * qty_to_fill
                                       else cost_basis);
                        trade_pnl = price t * amount t - cost_basis'
                    in Some ((fst st)(trade_symbol t \<mapsto> inventory'),
                             if is_today then snd st + trade_pnl else snd st))
             else Some ((fst st)(trade_symbol t \<mapsto> inventory), snd st))"

fun run_trades ::
  "calendar \<Rightarrow> trade list \<Rightarrow> inventories \<times> real \<Rightarrow> (inventories \<times> real) option" where
  "run_trades c [] st = Some st"
| "run_trades c (t # ts) st =
     (case trade_step c t st of None \<Rightarrow> None | Some st' \<Rightarrow> run_trades c ts st')"

text \<open>
  The body of the \<open>try\<close>: the inventories and the daily sum when the loop ends, \<open>None\<close> when
  an exception reaches the \<open>except\<close>.
\<close>

definition fifo_ledger :: "calendar \<Rightarrow> trade list \<Rightarrow> (inventories \<times> real) option" where
  "fifo_ledger c trades =
     (case sorted_trades trades of
        None \<Rightarrow> None
      | Some sorted_ts \<Rightarrow> run_trades c sorted_ts (Map.empty, 0))"

definition calculate_daily_realized_pnl :: "calendar \<Rightarrow> trade list \<Rightarrow> real" where
  "calculate_daily_realized_pnl c trades =
     (case fifo_ledger c trades of None \<Rightarrow> 0 | Some st \<Rightarrow> snd st)"

subsection \<open>The ledger as the specification words it\<close>

text \<open>
  The specification describes the ledger declaratively: partition the log by symbol, order
  each part by time, keep one FIFO queue of lots, and for a sale take the cost of the units
  withdrawn from the front of the queue, pricing the units the queue cannot supply at the
  sale price. The definitions below follow those words; they are compared with the loop.
\<close>

text \<open>Cost of the first \<open>q\<close> units of a queue, the units left unfilled, and the queue after.\<close>

fun fifo_cost :: "real \<Rightarrow> batch list \<Rightarrow> real" where
  "fifo_cost q [] = 0"
| "fifo_cost q (b # bs) =
     (if q \<le> 0 then 0
      else b_price b * min q (b_amount b) + fifo_cost (q - min q (b_amount b)) bs)"

fun fifo_unmatched :: "real \<Rightarrow> batch list \<Rightarrow> real" where
  "fifo_unmatched q [] = (if q > 0 then q else 0)"
| "fifo_unmatched q (b # bs) =
     (if q \<le> 0 then 0 else fifo_unmatched (q - min q (b_amount b)) bs)"

fun fifo_rest :: "real \<Rightarrow> batch list \<Rightarrow> batch list" where
  "fifo_rest q [] = []"
| "fifo_rest q (b # bs) =
     (if q \<le> 0 then b # bs
      else if q < b_amount b then b\<lparr>b_amount := b_amount b - q\<rparr> # bs
      else fifo_rest (q - b_amount b) bs)"

definition is_buy :: "trade \<Rightarrow> bool" where
  "is_buy t = (upper (side t) = ''BUY'')"

definition is_sell :: "trade \<Rightarrow> bool" where
  "is_sell t = (upper (side t) = ''SELL'')"

definition dated_today :: "calendar \<Rightarrow> trade \<Rightarrow> bool" where
  "dated_today c t = (parse_time c (time t) = Dated (today c))"

text \<open>Realized PnL of a sale against a queue: revenue minus cost basis.\<close>

definition sale_pnl :: "trade \<Rightarrow> batch list \<Rightarrow> real" where
  "sale_pnl t queue =
     price t * amount t -
       (fifo_cost (amount t) queue + price t * fifo_unmatched (amount t) queue)"

definition queue_step :: "trade \<Rightarrow> batch list \<Rightarrow> batch list" where
  "queue_step t queue =
     (if is_buy t then queue @ [\<lparr>b_price = price t, b_amount = amount t\<rparr>]
      else if is_sell t then fifo_rest (amount t) queue
      else queue)"

definition gain :: "calendar \<Rightarrow> trade \<Rightarrow> batch list \<Rightarrow> real" where
  "gain c t queue = (if is_sell t \<and> dated_today c t then sale_pnl t queue else 0)"

text \<open>One symbol: the lots left in the queue, and the sum over the sales dated today.\<close>

fun remaining :: "batch list \<Rightarrow> trade list \<Rightarrow> batch list" where
  "remaining queue [] = queue"
| "remaining queue (t # ts) = remaining (queue_step t queue) ts"

fun realized :: "calendar \<Rightarrow> batch list \<Rightarrow> trade list \<Rightarrow> real" where
  "realized c queue [] = 0"
| "realized c queue (t # ts) = gain c t queue + realized c (queue_step t queue) ts"

text \<open>Ascending time order of records whose times are of one kind.\<close>

definition ascending :: "trade list \<Rightarrow> trade list" where
  "ascending ts =
     (if list_all (\<lambda>t. is_str (time t)) ts then sort_key str_key ts else sort_key num_key ts)"

definition sub_log :: "string \<Rightarrow> trade list \<Rightarrow> trade list" where
  "sub_log s ts = filter (\<lambda>t. trade_symbol t = s) ts"

definition spec_realized_pnl :: "calendar \<Rightarrow> trade list \<Rightarrow> real" where
  "spec_realized_pnl c ts =
     (\<Sum>s\<leftarrow>remdups (map trade_symbol ts). realized c [] (ascending (sub_log s ts)))"

text \<open>
  What the loop adds to those words: a record whose time string does not parse is left
  out, and an exception (keys of both kinds in the sort, a number that is no timestamp)
  makes the result 0.
\<close>

definition readable :: "calendar \<Rightarrow> trade \<Rightarrow> bool" where
  "readable c t = (parse_time c (time t) \<noteq> Skipped)"

definition raises :: "calendar \<Rightarrow> trade list \<Rightarrow> bool" where
  "raises c ts =
     (sorted_trades ts = None \<or> list_ex (\<lambda>t. parse_time c (time t) = Raised) ts)"

text \<open>The inventory of a symbol: \<open>[]\<close> until the symbol has an entry.\<close>

definition inv_of :: "inventories \<Rightarrow> string \<Rightarrow> batch list" where
  "inv_of invs s = (case invs s of None \<Rightarrow> [] | Some lots \<Rightarrow> lots)"

subsection \<open>Concrete calendars and logs\<close>

text \<open>
  2 January 2024, with a parser that accepts the two ISO strings used below and rejects
  every other string, as \<open>datetime.fromisoformat\<close> rejects the string of digits
  \<open>'1704189600000'\<close> (the millisecond form that \<open>execute_order\<close> stores).
\<close>

definition jan2 :: calendar where
  "jan2 =
     \<lparr>today = (2024, 1, 2),
      fromisoformat = (\<lambda>s. if s = ''2024-01-02T10:00:00'' \<or> s = ''2024-01-02T11:00:00''
                           then Some (2024, 1, 2) else None),
      fromtimestamp = (\<lambda>n. None)\<rparr>"

definition buy_sell_log :: "trade list" where
  "buy_sell_log =
     [\<lparr>time = TStr ''2024-01-02T10:00:00'', side = ''BUY'', price = 100, amount = 1,
       symbol = Some ''BTC/USDT''\<rparr>,
      \<lparr>time = TStr ''2024-01-02T11:00:00'', side = ''SELL'', price = 110, amount = 1,
       symbol = Some ''BTC/USDT''\<rparr>]"


definition sell_buy_log :: "trade list" where
  "sell_buy_log = rev buy_sell_log"

section \<open>The ledger on the store\<close>

text \<open>
  The records of \<open>self.trades\<close> and the batches of an inventory are Python dicts: objects
  that lists refer to, and \<open>batch['amount'] -= qty_to_fill\<close> writes into one of them. To
  see which objects a call writes, the ledger is modelled a second time with the dicts in a
  store: an address is an index, a dict literal allocates at the end of the store, and a
  list of dicts is a list of addresses. \<open>sorted\<close> builds a new list of the same addresses;
  the inventories hold the addresses of the batches allocated by \<open>inventory.append\<close>.
\<close>

type_synonym addr = nat

datatype obj = TradeObj trade | BatchObj batch

type_synonym store = "obj list"

definition read_trade :: "store \<Rightarrow> addr \<Rightarrow> trade option" where
  "read_trade h a =
     (if a < length h then (case h ! a of TradeObj t \<Rightarrow> Some t | BatchObj _ \<Rightarrow> None) else None)"

definition read_batch :: "store \<Rightarrow> addr \<Rightarrow> batch option" where
  "read_batch h a =
     (if a < length h then (case h ! a of BatchObj b \<Rightarrow> Some b | TradeObj _ \<Rightarrow> None) else None)"

text \<open>
  The addresses of a log with the records they hold; \<open>None\<close> when an address holds no
  trade record, which no Python list of trade dicts does.
\<close>

fun read_trades :: "store \<Rightarrow> addr list \<Rightarrow> (addr \<times> trade) list option" where
  "read_trades h [] = Some []"
| "read_trades h (a # as) =
     (case read_trade h a of
        None \<Rightarrow> None
      | Some t \<Rightarrow> (case read_trades h as of None \<Rightarrow> None | Some ps \<Rightarrow> Some ((a, t) # ps)))"

text \<open>
  Outcomes of the store-level functions: \<open>Stuck\<close> for a read of an address that holds no
  object of the expected kind (not a behaviour of the program), \<open>Failed\<close> for an exception
  with the store as it is then, \<open>Ran\<close> for a normal end.
\<close>

datatype 'a outcome = Stuck | Failed store | Ran store 'a

definition sorted_refs :: "store \<Rightarrow> addr list \<Rightarrow> addr list outcome" where
  "sorted_refs h as =
     (case read_trades h as of
        None \<Rightarrow> Stuck
      | Some ps \<Rightarrow>
          if list_all (\<lambda>p. is_str (time (snd p))) ps
          then Ran h (map fst (sort_key (\<lambda>p. str_key (snd p)) ps))
          else if list_all (\<lambda>p. \<not> is_str (time (snd p))) ps
          then Ran h (map fst (sort_key (\<lambda>p. num_key (snd p)) ps))
          else Failed h)"

text \<open>The inner loop: \<open>batch = inventory[0]\<close> is a reference, the partial fill writes to it.\<close>

fun consume_st ::
  "store \<Rightarrow> real \<Rightarrow> real \<Rightarrow> addr list \<Rightarrow> (store \<times> real \<times> real \<times> addr list) option" where
  "consume_st h qty_to_fill cost_basis [] = Some (h, qty_to_fill, cost_basis, [])"
| "consume_st h qty_to_fill cost_basis (a # inventory) =
     (if qty_to_fill > 0 then
        (case read_batch h a of
           None \<Rightarrow> None
         | Some b \<Rightarrow>
             if b_amount b > qty_to_fill
             then Some (h[a := BatchObj (b\<lparr>b_amount := b_amount b - qty_to_fill\<rparr>)], 0,
                        cost_basis + b_price b * qty_to_fill, a # inventory)
             else consume_st h (qty_to_fill - b_amount b)
                    (cost_basis + b_price b * b_amount b) inventory)
      else Some (h, qty_to_fill, cost_basis, a # inventory))"

type_synonym inventories_st = "string \<Rightarrow> addr list option"

definition trade_step_st ::
  "calendar \<Rightarrow> addr \<Rightarrow> store \<Rightarrow> inventories_st \<times> real \<Rightarrow> (inventories_st \<times> real) outcome"
  where
  "trade_step_st c a h st =
     (case read_trade h a of
        None \<Rightarrow> Stuck
      | Some t \<Rightarrow>
         (case parse_time c (time t) of
            Skipped \<Rightarrow> Ran h st
          | Raised \<Rightarrow> Failed h
          | Dated d \<Rightarrow>
              let is_today = (d = today c);
                  inventory = (case fst st (trade_symbol t) of None \<Rightarrow> [] | Some lots \<Rightarrow> lots)
              in if upper (side t) = ''BUY'' then
                   Ran (h @ [BatchObj \<lparr>b_price = price t, b_amount = amount t\<rparr>])
                       ((fst st)(trade_symbol t \<mapsto> inventory @ [length h]), snd st)
                 else if upper (side t) = ''SELL'' then
                   (case consume_st h (amount t) 0 inventory of
                      None \<Rightarrow> Stuck
                    | Some (h', qty_to_fill, cost_basis, inventory') \<Rightarrow>
                        let cost_basis' = (if qty_to_fill > 0
                                           then cost_basis + price t * qty_to_fill
                                           else cost_basis);
                            trade_pnl = price t * amount t - cost_basis'
                        in Ran h' ((fst st)(trade_symbol t \<mapsto> inventory'),
                                   if is_today then snd st + trade_pnl else snd st))
                 else Ran h ((fst st)(trade_symbol t \<mapsto> inventory), snd st)))"

fun run_trades_st ::
  "calendar \<Rightarrow> addr list \<Rightarrow> store \<Rightarrow> inventories_st \<times> real \<Rightarrow> (inventories_st \<times> real) outcome"
  where
  "run_trades_st c [] h st = Ran h st"
| "run_trades_st c (a # as) h st =
     (case trade_step_st c a h st of
        Stuck \<Rightarrow> Stuck
      | Failed h' \<Rightarrow> Failed h'
      | Ran h' st' \<Rightarrow> run_trades_st c as h' st')"

text \<open>
  \<open>calculate_daily_realized_pnl\<close> on the store: the value returned and the store the call
  leaves. \<open>self.trades\<close> itself is only read (\<open>sorted\<close> copies it).
\<close>

definition calculate_daily_realized_pnl_st ::
  "calendar \<Rightarrow> store \<Rightarrow> addr list \<Rightarrow> (real \<times> store) option" where
  "calculate_daily_realized_pnl_st c h trades =
     (case sorted_refs h trades of
        Stuck \<Rightarrow> None
      | Failed h' \<Rightarrow> Some (0, h')
      | Ran h' sorted_ts \<Rightarrow>
          (case run_trades_st c sorted_ts h' (Map.empty, 0) of
             Stuck \<Rightarrow> None
           | Failed h'' \<Rightarrow> Some (0, h'')
           | Ran h'' st \<Rightarrow> Some (snd st, h'')))"

text \<open>The records a log of addresses holds.\<close>

definition log_records :: "store \<Rightarrow> addr list \<Rightarrow> trade list option" where
  "log_records h as = map_option (map snd) (read_trades h as)"

subsection \<open>The inventories of the loop and of the store\<close>

text \<open>
  The invariant that relates the two models during the loop, for a store that had \<open>n\<close>
  objects when the call began: each inventory of addresses holds the batches of the
  inventory of values, its addresses are distinct and were allocated by this call, and no
  two inventories share an address.
\<close>

definition inv_addrs :: "inventories_st \<Rightarrow> string \<Rightarrow> addr list" where
  "inv_addrs ivs s = (case ivs s of None \<Rightarrow> [] | Some lots \<Rightarrow> lots)"

definition rep :: "nat \<Rightarrow> store \<Rightarrow> inventories_st \<Rightarrow> inventories \<Rightarrow> bool" where
  "rep n h ivs invs \<longleftrightarrow>
     (\<forall>s. rel_option (\<lambda>as bs. map (read_batch h) as = map Some bs) (ivs s) (invs s)) \<and>
     (\<forall>s as. ivs s = Some as \<longrightarrow> distinct as \<and> (\<forall>a\<in>set as. n \<le> a \<and> a < length h)) \<and>
     (\<forall>s s' as as'. s \<noteq> s' \<longrightarrow> ivs s = Some as \<longrightarrow> ivs s' = Some as' \<longrightarrow>
        set as \<inter> set as' = {})"

text \<open>
  A store with a purchase of 2 at 100 and a later sale of 1 at 90; the log \<open>[1, 0]\<close> lists
  them newest first, as \<open>execute_order\<close> inserts them.
\<close>

definition store0 :: store where
  "store0 =
     [TradeObj \<lparr>time = TStr ''2024-01-02T10:00:00'', side = ''BUY'', price = 100, amount = 2,
        symbol = Some ''BTC/USDT''\<rparr>,
      TradeObj \<lparr>time = TStr ''2024-01-02T11:00:00'', side = ''SELL'', price = 90, amount = 1,
        symbol = Some ''BTC/USDT''\<rparr>]"

section \<open>The controller (okx\_bot/server.py, BotController)\<close>

text \<open>
  The exchange, the clock and the scheduler are outside the program. Every function of the
  controller that awaits one of them takes what it answered as an argument. The model is of
  the multi-symbol revision \<open>src/okx/okx_bot/server.py\<close>; the news, ticker and scanner
  refreshers, which only write their own caches, are not part of it.
\<close>

text \<open>
  What \<open>client.get_balance()\<close> returns: \<open>None\<close> after a failed fetch (falsy, like the initial
  \<open>{}\<close>), or a dict that may have the key \<open>'total'\<close> with the quantity of each coin.
\<close>

datatype balances = NoBalance | Balance "(string \<times> real) list option"

text \<open>A history point \<open>{"time": .., "value": ..}\<close>.\<close>

record point =
  p_time :: real
  p_value :: real

text \<open>
  The order dict that \<open>client.place_order\<close> returns: the key \<open>'timestamp'\<close> may be missing,
  hold \<open>None\<close> or hold milliseconds; \<open>'average'\<close> and \<open>'price'\<close> are \<open>None\<close> when missing
  or null.
\<close>

datatype ts_field = Absent | Null | Millis int

record ccxt_order =
  timestamp :: ts_field
  average :: "real option"
  order_price :: "real option"

record controller =
  is_running :: bool
  strategies :: "(string \<times> strategy) list"
  balance :: balances
  trades :: "trade list"
  market_prices :: "string \<Rightarrow> real option"
  last_trade_times :: "string \<Rightarrow> real option"
  price_history :: "string \<Rightarrow> point list option"
  pnl_history :: "point list"
  last_history_update :: real
  session_start_nav :: "real option"
  mode :: string
  active_symbols :: "string list"
  last_signal :: "string option"

text \<open>
  \<open>__init__\<close>. It does not create \<open>session_start_nav\<close> (nor \<open>last_signal\<close>): \<open>None\<close> in
  these two fields is an attribute that has not been set.
\<close>

definition init_controller :: controller where
  "init_controller =
     \<lparr>is_running = False, strategies = [], balance = NoBalance, trades = [],
      market_prices = Map.empty, last_trade_times = Map.empty, price_history = Map.empty,
      pnl_history = [], last_history_update = 0, session_start_nav = None,
      mode = ''SINGLE'', active_symbols = [], last_signal = None\<rparr>"

subsection \<open>Strings\<close>

text \<open>\<open>sub in s\<close> on strings, \<open>str\<close> of an integer, \<open>int\<close> of a float.\<close>

fun contains :: "string \<Rightarrow> string \<Rightarrow> bool" where
  "contains sub [] = (sub = [])"
| "contains sub (ch # s) = (take (length sub) (ch # s) = sub \<or> contains sub s)"

function digits :: "nat \<Rightarrow> string" where
  "digits n =
     (if n < 10 then [char_of (48 + n)] else digits (n div 10) @ [char_of (48 + n mod 10)])"
  by pat_completeness auto
termination
  by (relation "measure id") auto

declare digits.simps [simp del]

definition str_int :: "int \<Rightarrow> string" where
  "str_int i = (if i < 0 then CHR ''-'' # digits (nat (- i)) else digits (nat i))"

definition py_int :: "real \<Rightarrow> int" where
  "py_int x = (if x \<ge> 0 then \<lfloor>x\<rfloor> else \<lceil>x\<rceil>)"

definition signal_str :: "signal \<Rightarrow> string" where
  "signal_str sg = (case sg of BUY \<Rightarrow> ''BUY'' | SELL \<Rightarrow> ''SELL'')"

subsection \<open>execute\_order\<close>

text \<open>The fixed order size of a symbol, the four \<open>if\<close> in source order.\<close>

definition order_amount :: "string \<Rightarrow> real" where
  "order_amount smb =
     (let amount = 1 / 1000;
          amount = (if contains ''ETC'' smb then 1 / 10 else amount);
          amount = (if contains ''SOL'' smb then 1 / 10 else amount);
          amount = (if contains ''DOGE'' smb then 100 else amount);
          amount = (if contains ''ETH'' smb then 1 / 100 else amount)
      in amount)"

text \<open>
  What the exchange answers during one \<open>execute_order\<close>: the order (\<open>None\<close> when
  \<open>place_order\<close> failed), the clock read for the default timestamp, and the balance
  fetched afterwards.
\<close>

record gateway =
  placed :: "ccxt_order option"
  exec_clock :: real
  balance_after :: balances

definition trade_time :: "real \<Rightarrow> ccxt_order \<Rightarrow> string" where
  "trade_time clock ord =
     (case timestamp ord of
        Absent \<Rightarrow> str_int (py_int (clock * 1000))
      | Null \<Rightarrow> ''None''
      | Millis n \<Rightarrow> str_int n)"

text \<open>
  \<open>order.get('average') or order.get('price') or strategy.df.iloc[-1]['close']\<close>: the first
  value that is neither \<open>None\<close> nor 0; \<open>None\<close> when the last operand is reached and raises
  because the strategy has no table.
\<close>

definition trade_price :: "ccxt_order \<Rightarrow> strategy \<Rightarrow> real option" where
  "trade_price ord strat =
     (if average ord \<noteq> None \<and> average ord \<noteq> Some 0 then average ord
      else if order_price ord \<noteq> None \<and> order_price ord \<noteq> Some 0 then order_price ord
      else (case df strat of
              None \<Rightarrow> None
            | Some rows \<Rightarrow> if rows = [] then None else Some (close (last rows))))"

text \<open>
  \<open>execute_order\<close>; \<open>None\<close> when it raises, which it can only do before it has changed
  the controller.
\<close>

definition execute_order ::
  "gateway \<Rightarrow> signal \<Rightarrow> string \<Rightarrow> strategy \<Rightarrow> controller \<Rightarrow> controller option" where
  "execute_order gw sg smb strat ctl =
     (case placed gw of
        None \<Rightarrow> Some ctl
      | Some ord \<Rightarrow>
          (case trade_price ord strat of
             None \<Rightarrow> None
           | Some p \<Rightarrow>
               let trade = \<lparr>time = TStr (trade_time (exec_clock gw) ord), side = signal_str sg,
                            price = p, amount = order_amount smb, symbol = Some smb\<rparr>
               in Some (ctl\<lparr>trades := take 20 (trade # trades ctl),
                            balance := balance_after gw\<rparr>)))"

subsection \<open>The trading loop\<close>

text \<open>
  One pass of \<open>for symbol, strategy in self.strategies.items()\<close> for one symbol: what the
  candle fetch gave, the clock read for the cooldown, and the exchange's answers.
\<close>

record tick =
  fetched :: "row list option"
  now :: real
  exchange :: gateway

text \<open>A call of \<open>client.place_order\<close>, with the clock reading of the cooldown check before it.\<close>

record request =
  req_symbol :: string
  req_side :: signal
  req_amount :: real
  req_time :: real

text \<open>
  The block under \<open>if signal:\<close>. It returns the controller and the orders it sent to the
  exchange. When \<open>execute_order\<close> raises, the \<open>except\<close> of the loop skips the assignment
  of \<open>last_trade_times\<close>.
\<close>

definition handle_signal ::
  "tick \<Rightarrow> string \<Rightarrow> signal \<Rightarrow> strategy \<Rightarrow> controller \<Rightarrow> controller \<times> request list" where
  "handle_signal io smb sg strat ctl =
     (let ctl1 = ctl\<lparr>last_signal := Some (smb @ '': '' @ signal_str sg)\<rparr>;
          last_t = (case last_trade_times ctl1 smb of None \<Rightarrow> 0 | Some t \<Rightarrow> t)
      in if now io - last_t > 300 then
           (let sent = \<lparr>req_symbol = smb, req_side = sg, req_amount = order_amount smb,
                        req_time = now io\<rparr>
            in case execute_order (exchange io) sg smb strat ctl1 of
                 None \<Rightarrow> (if placed (exchange io) = None then (ctl1, []) else (ctl1, [sent]))
               | Some ctl2 \<Rightarrow>
                   (ctl2\<lparr>last_trade_times := (last_trade_times ctl2)(smb \<mapsto> now io)\<rparr>, [sent]))
         else (ctl1, []))"

text \<open>Assignment to a key of a dict kept in insertion order.\<close>

fun dict_set :: "'k \<Rightarrow> 'v \<Rightarrow> ('k \<times> 'v) list \<Rightarrow> ('k \<times> 'v) list" where
  "dict_set k v [] = [(k, v)]"
| "dict_set k v ((k', v') # kvs) =
     (if k = k' then (k, v) # kvs else (k', v') # dict_set k v kvs)"

text \<open>The body of the loop for one symbol: update, check the signals, trade.\<close>

definition symbol_step :: "tick \<Rightarrow> string \<Rightarrow> controller \<Rightarrow> controller \<times> request list" where
  "symbol_step io smb ctl =
     (case map_of (strategies ctl) smb of
        None \<Rightarrow> (ctl, [])
      | Some strat \<Rightarrow>
          (case check_signals (update (fetched io) strat) of
             (None, strat') \<Rightarrow> (ctl\<lparr>strategies := dict_set smb strat' (strategies ctl)\<rparr>, [])
           | (Some sg, strat') \<Rightarrow>
               handle_signal io smb sg strat'
                 (ctl\<lparr>strategies := dict_set smb strat' (strategies ctl)\<rparr>)))"

text \<open>\<open>xs[-100:]\<close>.\<close>

definition last_100 :: "'a list \<Rightarrow> 'a list" where
  "last_100 xs = drop (length xs - 100) xs"

text \<open>
  Net asset value: the USDT total plus each other coin at its price; \<open>price_of\<close> gives the
  price used for a coin.
\<close>

definition total_get :: "(string \<times> real) list \<Rightarrow> string \<Rightarrow> real" where
  "total_get totals coin = (case map_of totals coin of None \<Rightarrow> 0 | Some q \<Rightarrow> q)"

definition nav :: "(string \<Rightarrow> real) \<Rightarrow> (string \<times> real) list \<Rightarrow> real" where
  "nav price_of totals =
     foldl (\<lambda>acc (coin, qty). if coin = ''USDT'' then acc else acc + qty * price_of coin)
       (total_get totals ''USDT'') totals"

definition cached_price :: "controller \<Rightarrow> string \<Rightarrow> real" where
  "cached_price ctl coin =
     (case market_prices ctl (coin @ ''/USDT'') of None \<Rightarrow> 0 | Some p \<Rightarrow> p)"

definition record_price :: "real \<Rightarrow> controller \<Rightarrow> string \<Rightarrow> controller" where
  "record_price clock ctl smb =
     (case market_prices ctl smb of
        None \<Rightarrow> ctl
      | Some p \<Rightarrow>
          if p = 0 then ctl
          else
            let old = (case price_history ctl smb of None \<Rightarrow> [] | Some ps \<Rightarrow> ps)
            in ctl\<lparr>price_history :=
                 (price_history ctl)(smb \<mapsto> last_100 (old @ [\<lparr>p_time = clock, p_value = p\<rparr>]))\<rparr>)"

definition update_history_data :: "real \<Rightarrow> controller \<Rightarrow> controller" where
  "update_history_data clock ctl =
     (if clock - last_history_update ctl < 10 then ctl
      else
        let ctl1 = ctl\<lparr>last_history_update := clock\<rparr>;
            total_pnl =
              (case balance ctl1 of
                 Balance (Some totals) \<Rightarrow>
                   (case session_start_nav ctl1 of
                      None \<Rightarrow> 0
                    | Some start \<Rightarrow>
                        if start = 0 then 0 else nav (cached_price ctl1) totals - start)
               | _ \<Rightarrow> 0);
            ctl2 = ctl1\<lparr>pnl_history :=
                     last_100 (pnl_history ctl1 @ [\<lparr>p_time = clock, p_value = total_pnl\<rparr>])\<rparr>
        in foldl (record_price clock) ctl2 (active_symbols ctl2))"

text \<open>
  The steps of one iteration of \<open>while self.is_running\<close>: one per symbol, the balance
  fetch (kept only when truthy), the history update.
\<close>

datatype step = SymbolStep string tick | BalanceStep balances | HistoryStep real

fun run_step :: "step \<Rightarrow> controller \<Rightarrow> controller \<times> request list" where
  "run_step (SymbolStep smb io) ctl = symbol_step io smb ctl"
| "run_step (BalanceStep bal) ctl =
     (if bal = NoBalance then (ctl, []) else (ctl\<lparr>balance := bal\<rparr>, []))"
| "run_step (HistoryStep clock) ctl = (update_history_data clock ctl, [])"

fun run_steps :: "step list \<Rightarrow> controller \<Rightarrow> controller \<times> request list" where
  "run_steps [] ctl = (ctl, [])"
| "run_steps (st # sts) ctl =
     (case run_step st ctl of
        (ctl1, sent1) \<Rightarrow> (case run_steps sts ctl1 of (ctl2, sent2) \<Rightarrow> (ctl2, sent1 @ sent2)))"

record iteration =
  ticks :: "string \<Rightarrow> tick"
  loop_balance :: balances
  history_clock :: real

definition iteration_steps :: "iteration \<Rightarrow> controller \<Rightarrow> step list" where
  "iteration_steps it ctl =
     map (\<lambda>(smb, strat). SymbolStep smb (ticks it smb)) (strategies ctl) @
     [BalanceStep (loop_balance it), HistoryStep (history_clock it)]"

text \<open>
  \<open>run_loop\<close> for as many iterations as the scheduler lets it run before \<open>stop\<close> clears
  \<open>is_running\<close>.
\<close>

fun run_loop :: "iteration list \<Rightarrow> controller \<Rightarrow> controller \<times> request list" where
  "run_loop [] ctl = (ctl, [])"
| "run_loop (it # its) ctl =
     (if is_running ctl then
        (case run_steps (iteration_steps it ctl) ctl of
           (ctl1, sent1) \<Rightarrow> (case run_loop its ctl1 of (ctl2, sent2) \<Rightarrow> (ctl2, sent1 @ sent2)))
      else (ctl, []))"

subsection \<open>Sequences of orders that respect the cooldown\<close>

text \<open>
  \<open>cooled lt sent\<close>: each order of \<open>sent\<close> comes more than 300 seconds after the time
  that the table \<open>lt\<close> of last trade times, updated by the orders before it, holds for its
  symbol (0 when it holds none). \<open>stamped lt sent\<close> is the table after the orders.
\<close>

fun cooled :: "(string \<Rightarrow> real option) \<Rightarrow> request list \<Rightarrow> bool" where
  "cooled lt [] = True"
| "cooled lt (r # rs) =
     (req_time r - (case lt (req_symbol r) of None \<Rightarrow> 0 | Some t \<Rightarrow> t) > 300 \<and>
      cooled (lt(req_symbol r \<mapsto> req_time r)) rs)"

fun stamped :: "(string \<Rightarrow> real option) \<Rightarrow> request list \<Rightarrow> (string \<Rightarrow> real option)" where
  "stamped lt [] = lt"
| "stamped lt (r # rs) = stamped (lt(req_symbol r \<mapsto> req_time r)) rs"

subsection \<open>Concrete runs of the controller\<close>

text \<open>
  A running controller with one strategy, for ETH/USDT, FLAT on a table whose last row
  meets the long entry condition; the exchange fills every order at 90.5 and stamps it.
\<close>

definition eth_running :: controller where
  "eth_running = init_controller
     \<lparr>is_running := True, strategies := [(''ETH/USDT'', flat_on_dip)],
      active_symbols := [''ETH/USDT'']\<rparr>"

definition filling :: gateway where
  "filling =
     \<lparr>placed = Some \<lparr>timestamp = Millis 1704189600000, average = Some (181 / 2),
                      order_price = None\<rparr>,
      exec_clock = 1704189600, balance_after = NoBalance\<rparr>"

definition tick_at :: "real \<Rightarrow> row list option \<Rightarrow> tick" where
  "tick_at clock rows = \<lparr>fetched = rows, now = clock, exchange = filling\<rparr>"

definition drop_row :: row where
  "drop_row = \<lparr>close = 80, sma_20 = Num 85, rsi = Num 50\<rparr>"

text \<open>
  Two iterations 400 seconds apart: the first signals BUY on the dip, the second, on a row
  closing at 80 under the stop of the position entered at 90, signals SELL.
\<close>

definition two_rounds :: "iteration list" where
  "two_rounds =
     [\<lparr>ticks = (\<lambda>smb. tick_at 1000 None), loop_balance = NoBalance, history_clock = 1000\<rparr>,
      \<lparr>ticks = (\<lambda>smb. tick_at 1400 (Some [drop_row, drop_row])), loop_balance = NoBalance,
        history_clock = 1400\<rparr>]"

text \<open>A controller whose log already holds 20 fills.\<close>

definition crowded :: controller where
  "crowded = eth_running
     \<lparr>trades := replicate 20
        \<lparr>time = TStr ''1704100000000'', side = ''BUY'', price = 88, amount = 1 / 100,
         symbol = Some ''ETH/USDT''\<rparr>\<rparr>"

subsection \<open>start and stop\<close>

text \<open>
  The strategy that \<open>start\<close> creates for a symbol, with its adaptive parameters.
\<close>

definition new_strategy :: "string \<Rightarrow> strategy" where
  "new_strategy smb =
     (if smb = ''BTC/USDT''
      then (TrendRSIStrategy smb)\<lparr>sl_pct := 2 / 100, rsi_buy_thresh := 35\<rparr>
      else if smb = ''ETH/USDT'' then TrendRSIStrategy smb
      else (TrendRSIStrategy smb)\<lparr>sl_pct := 5 / 100, tp_pct := 10 / 100, rsi_buy_thresh := 25\<rparr>)"

text \<open>
  What the exchange answers during \<open>start\<close>: the first candle fetch of each symbol, the
  balance, and for a coin without a cached price the ticker: the fetch raised (the \<open>except\<close>
  passes and the price stays 0), or it returned \<open>t['last']\<close>, which may be \<open>None\<close>.
\<close>

datatype ticker = TickerFailed | Last "real option"

record start_io =
  first_fetch :: "string \<Rightarrow> row list option"
  start_balance :: balances
  fetch_ticker :: "string \<Rightarrow> ticker"

datatype error = AttributeError | TypeError | OverflowError

text \<open>
  The loop over \<open>self.balance['total'].items()\<close> in \<open>start\<close>; \<open>None\<close> is the TypeError of
  \<open>qty * price\<close> when the ticker's last price is \<open>None\<close>.
\<close>

fun start_nav ::
  "controller \<Rightarrow> (string \<Rightarrow> ticker) \<Rightarrow> real \<Rightarrow> (string \<times> real) list \<Rightarrow> real option" where
  "start_nav ctl tk total_nav [] = Some total_nav"
| "start_nav ctl tk total_nav ((coin, qty) # rest) =
     (if coin = ''USDT'' then start_nav ctl tk total_nav rest
      else if cached_price ctl coin = 0 then
        (case tk (coin @ ''/USDT'') of
           TickerFailed \<Rightarrow> start_nav ctl tk (total_nav + qty * 0) rest
         | Last None \<Rightarrow> None
         | Last (Some p) \<Rightarrow> start_nav ctl tk (total_nav + qty * p) rest)
      else start_nav ctl tk (total_nav + qty * cached_price ctl coin) rest)"

text \<open>
  \<open>start\<close> returns its message, or the exception that escapes it, and the controller as
  the call leaves it.
\<close>

definition start ::
  "start_io \<Rightarrow> string \<Rightarrow> string list \<Rightarrow> controller \<Rightarrow> (error + string) \<times> controller" where
  "start io md symbols ctl =
     (if is_running ctl then (Inr ''Bot already running'', ctl)
      else
        let ctl1 = ctl\<lparr>mode := md, active_symbols := symbols, strategies := [],
                       last_trade_times := Map.empty\<rparr>;
            ctl2 = ctl1\<lparr>strategies :=
                     foldl (\<lambda>d smb. dict_set smb (update (first_fetch io smb) (new_strategy smb)) d)
                       [] symbols\<rparr>;
            ctl3 = ctl2\<lparr>balance := start_balance io\<rparr>
        in case start_balance io of
             Balance (Some totals) \<Rightarrow>
               (case start_nav ctl3 (fetch_ticker io) (total_get totals ''USDT'') totals of
                  None \<Rightarrow> (Inl TypeError, ctl3)
                | Some total_nav \<Rightarrow>
                    (Inr (''Started '' @ md @ '' mode''),
                     ctl3\<lparr>session_start_nav := Some total_nav, is_running := True\<rparr>))
           | _ \<Rightarrow> (Inr (''Started '' @ md @ '' mode''), ctl3\<lparr>is_running := True\<rparr>))"

text \<open>
  \<open>stop\<close> clears \<open>is_running\<close> and awaits the task: the loop finishes the steps of the
  iteration it is in (\<open>pending\<close>, none when it is asleep) and ends.
\<close>

definition stop :: "step list \<Rightarrow> controller \<Rightarrow> string \<times> controller" where
  "stop pending ctl =
     (if \<not> is_running ctl then (''Already stopped'', ctl)
      else (''Bot stopped'', fst (run_steps pending (ctl\<lparr>is_running := False\<rparr>))))"

text \<open>The price that \<open>start\<close> uses for a coin: the cached one, else the ticker's.\<close>

definition start_price :: "controller \<Rightarrow> start_io \<Rightarrow> string \<Rightarrow> real" where
  "start_price ctl io coin =
     (if cached_price ctl coin = 0
      then (case fetch_ticker io (coin @ ''/USDT'') of Last (Some p) \<Rightarrow> p | _ \<Rightarrow> 0)
      else cached_price ctl coin)"

subsection \<open>get\_status\<close>

text \<open>
  \<open>get_strategy_info\<close>: \<open>{}\<close> without a table (\<open>None\<close> here), else the indicator values,
  the next action and, with a position, its entry and its stop and target prices.
\<close>

record strategy_info =
  info_sma_20 :: pyfloat
  info_rsi :: pyfloat
  next_action :: action
  target_price :: pyfloat
  position_status :: "(phase \<times> real) option"
  sl :: "real option"
  tp :: "real option"

definition get_strategy_info :: "strategy \<Rightarrow> strategy_info option" where
  "get_strategy_info s =
     (case df s of
        None \<Rightarrow> None
      | Some rows \<Rightarrow>
          if rows = [] then None
          else
            let r = last rows in
            Some \<lparr>info_sma_20 = sma_20 r, info_rsi = rsi r, next_action = get_next_action s r,
                   target_price = sma_20 r,
                   position_status = map_option (\<lambda>p. (p, entry_price s)) (position s),
                   sl = (case position s of
                           None \<Rightarrow> None
                         | Some LONG \<Rightarrow> Some (entry_price s * (1 - sl_pct s))
                         | Some SHORT \<Rightarrow> Some (entry_price s * (1 + sl_pct s))),
                   tp = (case position s of
                           None \<Rightarrow> None
                         | Some LONG \<Rightarrow> Some (entry_price s * (1 + tp_pct s))
                         | Some SHORT \<Rightarrow> Some (entry_price s * (1 - tp_pct s)))\<rparr>)"

record status =
  st_is_running :: bool
  st_mode :: string
  st_usdt :: real
  st_estimated_nav :: real
  st_strategies :: "(string \<times> strategy_info option \<times> point list option) list"
  st_pnl_current :: real
  st_pnl_history :: "point list"
  st_daily_realized :: real
  st_trades :: "trade list"
  st_prices :: "string \<Rightarrow> real option"

text \<open>
  \<open>get_status\<close>. The dict literal is evaluated in order; \<open>estimated_nav\<close> reads
  \<open>self.session_start_nav\<close> whenever \<open>pnl_history\<close> is not empty, and that read raises
  AttributeError when the attribute has not been set.
\<close>

definition get_status :: "calendar \<Rightarrow> controller \<Rightarrow> error + status" where
  "get_status c ctl =
     (let usdt = (case balance ctl of
                    Balance (Some totals) \<Rightarrow> total_get totals ''USDT''
                  | _ \<Rightarrow> 0)
      in case (if pnl_history ctl = [] then Some 0
               else map_option (\<lambda>start. start + p_value (last (pnl_history ctl)))
                      (session_start_nav ctl)) of
           None \<Rightarrow> Inl AttributeError
         | Some estimated_nav \<Rightarrow>
             Inr \<lparr>st_is_running = is_running ctl, st_mode = mode ctl, st_usdt = usdt,
                  st_estimated_nav = estimated_nav,
                  st_strategies =
                    map (\<lambda>(smb, strat). (smb, get_strategy_info strat, price_history ctl smb))
                      (strategies ctl),
                  st_pnl_current =
                    (if pnl_history ctl = [] then 0 else p_value (last (pnl_history ctl))),
                  st_pnl_history = pnl_history ctl,
                  st_daily_realized = calculate_daily_realized_pnl c (trades ctl),
                  st_trades = trades ctl, st_prices = market_prices ctl\<rparr>)"

subsection \<open>Concrete sessions\<close>

text \<open>
  A start for ETH/USDT during which the balance fetch fails, and one during which it returns
  1000 USDT; one iteration of the loop at clock 1000 in which nothing is fetched.
\<close>

definition no_balance_io :: start_io where
  "no_balance_io =
     \<lparr>first_fetch = (\<lambda>smb. None), start_balance = NoBalance,
      fetch_ticker = (\<lambda>smb. TickerFailed)\<rparr>"

definition funded_io :: start_io where
  "funded_io =
     \<lparr>first_fetch = (\<lambda>smb. None), start_balance = Balance (Some [(''USDT'', 1000)]),
      fetch_ticker = (\<lambda>smb. TickerFailed)\<rparr>"

definition quiet_round :: iteration where
  "quiet_round =
     \<lparr>ticks = (\<lambda>smb. tick_at 1000 None), loop_balance = NoBalance, history_clock = 1000\<rparr>"

text \<open>The controller after the start with 1000 USDT.\<close>

definition started_funded :: controller where
  "started_funded = init_controller
     \<lparr>strategies := [(''ETH/USDT'', TrendRSIStrategy ''ETH/USDT'')],
      active_symbols := [''ETH/USDT''], balance := Balance (Some [(''USDT'', 1000)]),
      session_start_nav := Some 1000, is_running := True\<rparr>"

subsection \<open>Two fills of one day\<close>

text \<open>
  The exchange fills a purchase at 100, stamped 2 January 2024 10:00:00 UTC, and a sale at
  110, stamped 11:00:00 UTC, in milliseconds as ccxt gives them. \<open>two_fills\<close> is the
  controller after \<open>execute_order\<close> has recorded both.
\<close>

definition buy_at_ten :: gateway where
  "buy_at_ten =
     \<lparr>placed = Some \<lparr>timestamp = Millis 1704189600000, average = Some 100,
                      order_price = None\<rparr>,
      exec_clock = 1704189600, balance_after = NoBalance\<rparr>"

definition sell_at_eleven :: gateway where
  "sell_at_eleven =
     \<lparr>placed = Some \<lparr>timestamp = Millis 1704193200000, average = Some 110,
                      order_price = None\<rparr>,
      exec_clock = 1704193200, balance_after = NoBalance\<rparr>"

definition two_fills :: "controller option" where
  "two_fills =
     (case execute_order buy_at_ten BUY ''ETH/USDT'' flat_on_dip eth_running of
        None \<Rightarrow> None
      | Some ctl \<Rightarrow> execute_order sell_at_eleven SELL ''ETH/USDT'' flat_on_dip ctl)"

section \<open>The single-symbol revision (src/okx\_bot/server.py)\<close>

text \<open>
  The earlier revision of the controller trades one symbol and keeps one
  \<open>last_trade_time\<close>. Its signal block and its \<open>execute_order\<close> are modelled, with the
  fields they use.
\<close>

record trade_v1 =
  v1_time :: string
  v1_side :: string
  v1_price :: "real option"
  v1_amount :: real

record controller_v1 =
  trades_v1 :: "trade_v1 list"
  balance_v1 :: balances
  last_price :: "real option"
  last_trade_time :: "real option"
  last_signal_v1 :: "signal option"

text \<open>
  What the exchange and the clock library answer during one \<open>execute_order\<close>:
  \<open>isoformat n\<close> is \<open>datetime.fromtimestamp(n / 1000).isoformat()\<close>, \<open>None\<close> when the
  conversion raises.
\<close>

record gateway_v1 =
  placed_v1 :: "ccxt_order option"
  isoformat :: "int \<Rightarrow> string option"
  balance_after_v1 :: balances

text \<open>
  \<open>execute_order\<close> of this revision. After the order has been placed it converts
  \<open>order['timestamp']\<close> when the key is present: \<open>None / 1000\<close> raises TypeError, and so
  the call raises before it has recorded the trade.
\<close>

definition execute_order_v1 ::
  "gateway_v1 \<Rightarrow> signal \<Rightarrow> string \<Rightarrow> controller_v1 \<Rightarrow> error + controller_v1" where
  "execute_order_v1 gw sg smb ctl =
     (let amount = (if contains ''ETC'' smb then 1 / 10 else 1 / 1000)
      in case placed_v1 gw of
           None \<Rightarrow> Inr ctl
         | Some ord \<Rightarrow>
             let p = (if average ord \<noteq> None \<and> average ord \<noteq> Some 0 then average ord
                      else if order_price ord \<noteq> None \<and> order_price ord \<noteq> Some 0
                      then order_price ord
                      else last_price ctl);
                 record_trade = (\<lambda>stamp.
                   Inr (ctl\<lparr>trades_v1 :=
                              take 10 (\<lparr>v1_time = stamp, v1_side = signal_str sg, v1_price = p,
                                        v1_amount = amount\<rparr> # trades_v1 ctl),
                            balance_v1 := balance_after_v1 gw\<rparr>))
             in case timestamp ord of
                  Absent \<Rightarrow> record_trade ''''
                | Null \<Rightarrow> Inl TypeError
                | Millis n \<Rightarrow>
                    (case isoformat gw n of
                       None \<Rightarrow> Inl OverflowError
                     | Some stamp \<Rightarrow> record_trade stamp))"

record tick_v1 =
  now_v1 :: real
  exchange_v1 :: gateway_v1

text \<open>
  The block under \<open>if signal:\<close> of this revision. It returns the controller and the orders
  that the exchange accepted (\<open>place_order\<close> returned an order). An exception of
  \<open>execute_order\<close> leaves the loop body before \<open>self.last_trade_time = current_time\<close>.
\<close>

definition handle_signal_v1 ::
  "tick_v1 \<Rightarrow> string \<Rightarrow> signal \<Rightarrow> controller_v1 \<Rightarrow> controller_v1 \<times> request list" where
  "handle_signal_v1 io smb sg ctl =
     (let ctl1 = ctl\<lparr>last_signal_v1 := Some sg\<rparr>
      in if (case last_trade_time ctl1 of None \<Rightarrow> True | Some t \<Rightarrow> now_v1 io - t \<ge> 300) then
           (let accepted =
                  (case placed_v1 (exchange_v1 io) of
                     None \<Rightarrow> []
                   | Some ord \<Rightarrow>
                       [\<lparr>req_symbol = smb, req_side = sg,
                         req_amount = (if contains ''ETC'' smb then 1 / 10 else 1 / 1000),
                         req_time = now_v1 io\<rparr>])
            in case execute_order_v1 (exchange_v1 io) sg smb ctl1 of
                 Inl e \<Rightarrow> (ctl1, accepted)
               | Inr ctl2 \<Rightarrow> (ctl2\<lparr>last_trade_time := Some (now_v1 io)\<rparr>, accepted))
         else (ctl1, []))"

text \<open>
  A controller that has not traded yet, and an exchange that accepts every order and
  answers with an order dict whose \<open>'timestamp'\<close> is \<open>None\<close>.
\<close>

definition fresh_v1 :: controller_v1 where
  "fresh_v1 =
     \<lparr>trades_v1 = [], balance_v1 = NoBalance, last_price = Some 90, last_trade_time = None,
      last_signal_v1 = None\<rparr>"

definition unstamped :: gateway_v1 where
  "unstamped =
     \<lparr>placed_v1 = Some \<lparr>timestamp = Null, average = Some (181 / 2), order_price = None\<rparr>,
      isoformat = (\<lambda>n. None), balance_after_v1 = NoBalance\<rparr>"

section \<open>Properties of the strategy\<close>

lemma check_signals_no_row:
  "evaluated_row s = None \<Longrightarrow> check_signals s = (None, s)"
  by (auto simp: evaluated_row_def check_signals_def split: option.splits if_splits)

lemma check_signals_flat:
  assumes "evaluated_row s = Some r" and "position s = None"
  shows "check_signals s =
     (if long_entry s r then (Some BUY, s\<lparr>position := Some LONG, entry_price := close r\<rparr>)
      else if short_entry s r then (Some SELL, s\<lparr>position := Some SHORT, entry_price := close r\<rparr>)
      else (None, s))"
  using assms
  by (auto simp: evaluated_row_def check_signals_def exit_signals_def Let_def
           split: option.splits if_splits)

lemma check_signals_held:
  assumes "evaluated_row s = Some r" and "position s \<noteq> None"
  shows "check_signals s = exit_signals s r"
  using assms
  by (auto simp: evaluated_row_def check_signals_def Let_def split: option.splits if_splits)

lemma exit_signals_flat: "position s = None \<Longrightarrow> exit_signals s r = (None, s)"
  by (simp add: exit_signals_def)

lemma nan_blocks_entry:
  assumes "is_nan (sma_20 r) \<or> is_nan (rsi r)"
  shows "\<not> long_entry s r" and "\<not> short_entry s r"
  using assms
  by (cases "sma_20 r"; cases "rsi r"; simp add: long_entry_def short_entry_def)+

lemma check_signals_flat_nan:
  assumes "position s = None" and "evaluated_row s = Some r"
    and "is_nan (sma_20 r) \<or> is_nan (rsi r)"
  shows "check_signals s = (None, s)"
  using check_signals_flat [OF assms(2) assms(1)] nan_blocks_entry [OF assms(3)]
  by simp

subsection \<open>Undefined indicators\<close>

text \<open>
  C3. With an undefined \<open>sma_20\<close> or \<open>rsi\<close> no signal is to be emitted in any phase.
  The entry block does keep silent (\<open>check_signals_flat_nan\<close>), and \<open>get_next_action\<close>
  guards the undefined row explicitly. \<open>check_signals\<close> has no such guard: holding a long
  position entered at 100 with a 3 percent stop, a row closing at 90 whose two indicators are
  both NaN makes it return SELL and drop the position, while \<open>get_next_action\<close> reports that
  the indicators are still initialising.
\<close>

theorem check_signals_nan_row_sells:
  "is_nan (sma_20 warmup_row) \<and> is_nan (rsi warmup_row) \<and>
   evaluated_row long_at_100 = Some warmup_row \<and>
   get_next_action long_at_100 warmup_row = Initializing \<and>
   check_signals long_at_100 = (Some SELL, long_at_100\<lparr>position := None\<rparr>)"
  by (simp add: warmup_row_def long_at_100_def TrendRSIStrategy_def evaluated_row_def
        get_next_action_def check_signals_def exit_signals_def long_stop_loss_def Let_def)

subsection \<open>Holding a long position\<close>

text \<open>
  C4. In phase LONG a call of \<open>check_signals\<close> either emits nothing and leaves the strategy
  as it was, or emits SELL, and then one of the three exit tests (stop-loss, take-profit,
  RSI above the sell threshold) holds on the evaluated row and the only change of state is
  that the position is cleared: the phase moves once, to FLAT, and the entry price is not
  touched, so no position is re-entered in the same call. Whenever an exit test holds on the
  evaluated row the call does exit, whether or not the row also meets an entry condition.
\<close>

theorem long_emits_only_sell:
  assumes "position s = Some LONG"
  shows "(check_signals s = (None, s) \<or>
          (check_signals s = (Some SELL, s\<lparr>position := None\<rparr>) \<and>
           (\<exists>rows. df s = Some rows \<and> 2 \<le> length rows \<and>
              (close (last rows) \<le> entry_price s * (1 - sl_pct s) \<or>
               close (last rows) \<ge> entry_price s * (1 + tp_pct s) \<or>
               fgt (rsi (last rows)) (Num (rsi_sell_thresh s)))))) \<and>
         (\<forall>rows. df s = Some rows \<and> 2 \<le> length rows \<and>
              (close (last rows) \<le> entry_price s * (1 - sl_pct s) \<or>
               close (last rows) \<ge> entry_price s * (1 + tp_pct s) \<or>
               fgt (rsi (last rows)) (Num (rsi_sell_thresh s)))
            \<longrightarrow> check_signals s = (Some SELL, s\<lparr>position := None\<rparr>))"
proof (cases "evaluated_row s")
  case None
  then have "check_signals s = (None, s)" by (rule check_signals_no_row)
  moreover from None have "\<And>rows. df s = Some rows \<Longrightarrow> \<not> 2 \<le> length rows"
    by (auto simp: evaluated_row_def split: option.splits if_splits)
  ultimately show ?thesis by auto
next
  case (Some r)
  then obtain rows where rows: "df s = Some rows" "2 \<le> length rows" "r = last rows"
    by (auto simp: evaluated_row_def split: option.splits if_splits)
  have "check_signals s = exit_signals s r"
    using Some assms by (simp add: check_signals_held)
  then show ?thesis
    using assms rows
    by (auto simp: exit_signals_def long_stop_loss_def long_take_profit_def long_rsi_exit_def)
qed

text \<open>
  The witness holds a long position entered at 100; the row closes at 90, under the 3 percent
  stop, and at the same time meets the long entry condition (close above the average, RSI 20
  under the threshold 30). The call sells and ends FLAT.
\<close>

theorem long_emits_only_sell_witness:
  "position long_on_dip = Some LONG \<and>
   fgt (Num (close dip_row)) (sma_20 dip_row) \<and>
   flt (rsi dip_row) (Num (rsi_buy_thresh long_on_dip)) \<and>
   close dip_row \<le> entry_price long_on_dip * (1 - sl_pct long_on_dip) \<and>
   check_signals long_on_dip = (Some SELL, long_on_dip\<lparr>position := None\<rparr>) \<and>
   position (snd (check_signals long_on_dip)) = None"
proof -
  have p: "position long_on_dip = Some LONG"
    by (simp add: long_on_dip_def)
  have d: "df long_on_dip = Some [dip_row, dip_row] \<and> 2 \<le> length [dip_row, dip_row] \<and>
      close (last [dip_row, dip_row]) \<le> entry_price long_on_dip * (1 - sl_pct long_on_dip)"
    by (simp add: long_on_dip_def dip_row_def TrendRSIStrategy_def)
  have "check_signals long_on_dip = (Some SELL, long_on_dip\<lparr>position := None\<rparr>)"
    using long_emits_only_sell [OF p] d by blast
  moreover have "fgt (Num (close dip_row)) (sma_20 dip_row) \<and>
      flt (rsi dip_row) (Num (rsi_buy_thresh long_on_dip)) \<and>
      close dip_row \<le> entry_price long_on_dip * (1 - sl_pct long_on_dip)"
    by (simp add: long_on_dip_def dip_row_def TrendRSIStrategy_def)
  ultimately show ?thesis using p by simp
qed

subsection \<open>Entering from FLAT\<close>

text \<open>
  C5. In phase FLAT, on a table of at least two rows (shorter tables are not evaluated),
  \<open>check_signals\<close> returns BUY exactly when the close of the last row is above its
  \<open>sma_20\<close> and its \<open>rsi\<close> is below \<open>rsi_buy_thresh\<close>; the strategy is then LONG with
  the entry price set to that close, and nothing else changed.
\<close>

theorem flat_buy_iff_uptrend_dip:
  assumes "position s = None" and "df s = Some rows" and "2 \<le> length rows"
  shows "(fst (check_signals s) = Some BUY \<longleftrightarrow>
            fgt (Num (close (last rows))) (sma_20 (last rows)) \<and>
            flt (rsi (last rows)) (Num (rsi_buy_thresh s))) \<and>
         (fst (check_signals s) = Some BUY \<longrightarrow>
            snd (check_signals s) = s\<lparr>position := Some LONG, entry_price := close (last rows)\<rparr>)"
proof -
  have "evaluated_row s = Some (last rows)"
    using assms by (simp add: evaluated_row_def)
  from check_signals_flat [OF this assms(1)] show ?thesis
    by (auto simp: long_entry_def)
qed

theorem flat_buy_iff_uptrend_dip_witness:
  "position flat_on_dip = None \<and> df flat_on_dip = Some [dip_row, dip_row] \<and>
   2 \<le> length [dip_row, dip_row] \<and>
   check_signals flat_on_dip =
     (Some BUY, flat_on_dip\<lparr>position := Some LONG, entry_price := 90\<rparr>)"
proof -
  have a: "position flat_on_dip = None" "df flat_on_dip = Some [dip_row, dip_row]"
    "2 \<le> length [dip_row, dip_row]"
    by (simp_all add: flat_on_dip_def TrendRSIStrategy_def)
  have c: "fgt (Num (close (last [dip_row, dip_row]))) (sma_20 (last [dip_row, dip_row])) \<and>
      flt (rsi (last [dip_row, dip_row])) (Num (rsi_buy_thresh flat_on_dip))"
    by (simp add: flat_on_dip_def dip_row_def TrendRSIStrategy_def)
  have l: "close (last [dip_row, dip_row]) = 90" by (simp add: dip_row_def)
  from flat_buy_iff_uptrend_dip [OF a] c l
  have "fst (check_signals flat_on_dip) = Some BUY \<and>
      snd (check_signals flat_on_dip) = flat_on_dip\<lparr>position := Some LONG, entry_price := 90\<rparr>"
    by simp
  then have "check_signals flat_on_dip =
      (Some BUY, flat_on_dip\<lparr>position := Some LONG, entry_price := 90\<rparr>)"
    by (metis prod.collapse)
  with a show ?thesis by simp
qed

section \<open>Properties of the ledger\<close>

subsection \<open>The loop and the declarative ledger\<close>

lemma fifo_cost_nonpos: "q \<le> 0 \<Longrightarrow> fifo_cost q bs = 0"
  by (cases bs) simp_all

lemma fifo_unmatched_nonpos: "q \<le> 0 \<Longrightarrow> fifo_unmatched q bs = 0"
  by (cases bs) simp_all

lemma fifo_rest_nonpos: "q \<le> 0 \<Longrightarrow> fifo_rest q bs = bs"
  by (cases bs) simp_all

lemma consume_fifo:
  "consume q cost bs =
     (if q \<le> 0 then q else fifo_unmatched q bs, cost + fifo_cost q bs, fifo_rest q bs)"
proof (induction bs arbitrary: q cost)
  case Nil
  then show ?case by simp
next
  case (Cons b bs)
  show ?case
  proof (cases "q > 0")
    case False
    then show ?thesis by simp
  next
    case True
    show ?thesis
    proof (cases "b_amount b > q")
      case big: True
      with True show ?thesis
        by (simp add: fifo_cost_nonpos fifo_unmatched_nonpos min_def)
    next
      case small: False
      then have m: "min q (b_amount b) = b_amount b" by simp
      show ?thesis
      proof (cases "q - b_amount b \<le> 0")
        case True
        then have "q = b_amount b" using small by simp
        with \<open>q > 0\<close> small show ?thesis
          by (simp add: Cons.IH fifo_cost_nonpos fifo_unmatched_nonpos fifo_rest_nonpos)
      next
        case False
        with \<open>q > 0\<close> small m show ?thesis
          by (simp add: Cons.IH)
      qed
    qed
  qed
qed

lemma fifo_unmatched_nonneg: "0 \<le> fifo_unmatched q bs"
  by (induction bs arbitrary: q) simp_all

lemma trade_step_dated:
  assumes "parse_time c (time t) = Dated d"
  shows "trade_step c t (invs, acc) =
     Some (invs(trade_symbol t \<mapsto> queue_step t (inv_of invs (trade_symbol t))),
           acc + gain c t (inv_of invs (trade_symbol t)))"
proof -
  have u: "\<not> 0 < fifo_unmatched q bs \<Longrightarrow> fifo_unmatched q bs = 0" for q bs
    using fifo_unmatched_nonneg [of q bs] by simp
  show ?thesis
    using assms
    by (auto simp: trade_step_def Let_def queue_step_def gain_def is_buy_def is_sell_def
        dated_today_def inv_of_def sale_pnl_def consume_fifo fifo_cost_nonpos
        fifo_unmatched_nonpos fifo_rest_nonpos u split: option.splits)
qed

lemma trade_step_skipped:
  "parse_time c (time t) = Skipped \<Longrightarrow> trade_step c t st = Some st"
  by (simp add: trade_step_def)

lemma trade_step_raised:
  "parse_time c (time t) = Raised \<Longrightarrow> trade_step c t st = None"
  by (simp add: trade_step_def)

lemma run_trades_raised:
  "list_ex (\<lambda>t. parse_time c (time t) = Raised) ts \<Longrightarrow> run_trades c ts st = None"
proof (induction ts arbitrary: st)
  case Nil
  then show ?case by simp
next
  case (Cons t ts)
  show ?case
  proof (cases "trade_step c t st")
    case None
    then show ?thesis by simp
  next
    case (Some st')
    then have "parse_time c (time t) \<noteq> Raised"
      by (auto simp: trade_step_raised)
    with Cons.prems have "list_ex (\<lambda>t. parse_time c (time t) = Raised) ts" by simp
    with Cons.IH Some show ?thesis by simp
  qed
qed

lemma run_trades_readable:
  "\<not> list_ex (\<lambda>t. parse_time c (time t) = Raised) ts \<Longrightarrow>
   run_trades c ts st = run_trades c (filter (readable c) ts) st"
proof (induction ts arbitrary: st)
  case Nil
  then show ?case by simp
next
  case (Cons t ts)
  then have nr: "parse_time c (time t) \<noteq> Raised"
    and rest: "\<not> list_ex (\<lambda>t. parse_time c (time t) = Raised) ts" by simp_all
  show ?case
  proof (cases "parse_time c (time t)")
    case Skipped
    then show ?thesis
      using Cons.IH [OF rest] by (simp add: readable_def trade_step_skipped)
  next
    case Raised
    with nr show ?thesis by simp
  next
    case (Dated d)
    then have "readable c t" by (simp add: readable_def)
    then show ?thesis
      using Cons.IH [OF rest] by (simp split: option.splits)
  qed
qed

lemma run_trades_by_symbol:
  assumes "list_all (\<lambda>t. \<exists>d. parse_time c (time t) = Dated d) ts"
    and "finite S" and "trade_symbol ` set ts \<subseteq> S"
  shows "\<exists>invs'. run_trades c ts (invs, acc) =
           Some (invs', acc + (\<Sum>s\<in>S. realized c (inv_of invs s) (sub_log s ts))) \<and>
           (\<forall>s. inv_of invs' s = remaining (inv_of invs s) (sub_log s ts))"
  using assms
proof (induction ts arbitrary: invs acc)
  case Nil
  then show ?case by (simp add: sub_log_def)
next
  case (Cons t ts)
  from Cons.prems obtain d where d: "parse_time c (time t) = Dated d" by auto
  define s0 where "s0 = trade_symbol t"
  define q0 where "q0 = inv_of invs s0"
  define invs1 where "invs1 = invs(s0 \<mapsto> queue_step t q0)"
  have step: "trade_step c t (invs, acc) = Some (invs1, acc + gain c t q0)"
    using trade_step_dated [OF d] by (simp add: invs1_def s0_def q0_def)
  have s0S: "s0 \<in> S" using Cons.prems by (simp add: s0_def)
  from Cons.prems have "list_all (\<lambda>t. \<exists>d. parse_time c (time t) = Dated d) ts"
    "trade_symbol ` set ts \<subseteq> S" by simp_all
  from Cons.IH [OF this(1) Cons.prems(2) this(2), of invs1 "acc + gain c t q0"]
  obtain invs' where run: "run_trades c ts (invs1, acc + gain c t q0) =
      Some (invs', acc + gain c t q0 + (\<Sum>s\<in>S. realized c (inv_of invs1 s) (sub_log s ts)))"
    and inv': "\<And>s. inv_of invs' s = remaining (inv_of invs1 s) (sub_log s ts)"
    by blast
  have same: "inv_of invs1 s = inv_of invs s" if "s \<noteq> s0" for s
    using that by (simp add: invs1_def inv_of_def)
  have at0: "inv_of invs1 s0 = queue_step t q0"
    by (simp add: invs1_def inv_of_def)
  have each: "realized c (inv_of invs s) (sub_log s (t # ts)) =
      (if s = s0 then gain c t q0 else 0) + realized c (inv_of invs1 s) (sub_log s ts)" for s
    using same [of s] at0 by (simp add: sub_log_def s0_def q0_def)
  have "(\<Sum>s\<in>S. realized c (inv_of invs s) (sub_log s (t # ts))) =
      (\<Sum>s\<in>S. if s = s0 then gain c t q0 else 0) +
      (\<Sum>s\<in>S. realized c (inv_of invs1 s) (sub_log s ts))"
    by (simp add: each sum.distrib)
  also have "(\<Sum>s\<in>S. if s = s0 then gain c t q0 else 0) = gain c t q0"
    using s0S Cons.prems(2) by simp
  finally have total: "(\<Sum>s\<in>S. realized c (inv_of invs s) (sub_log s (t # ts))) =
      gain c t q0 + (\<Sum>s\<in>S. realized c (inv_of invs1 s) (sub_log s ts))" .
  have rem: "inv_of invs' s = remaining (inv_of invs s) (sub_log s (t # ts))" for s
  proof (cases "s = s0")
    case True
    then show ?thesis
      using inv' [of s0] at0 by (simp add: sub_log_def s0_def q0_def)
  next
    case False
    then show ?thesis
      using inv' [of s] same [of s] by (auto simp: sub_log_def s0_def)
  qed
  show ?case
    using step run total rem by simp
qed

lemma ascending_within:
  assumes "sorted_trades ts = Some xs" and "set ys \<subseteq> set ts"
  shows "ascending ys =
     (if list_all (\<lambda>t. is_str (time t)) ts then sort_key str_key ys else sort_key num_key ys)"
proof (cases "list_all (\<lambda>t. is_str (time t)) ts")
  case True
  with assms(2) have "list_all (\<lambda>t. is_str (time t)) ys"
    by (auto simp: list_all_iff)
  with True show ?thesis by (simp add: ascending_def)
next
  case False
  with assms(1) have "list_all (\<lambda>t. \<not> is_str (time t)) ts"
    by (simp add: sorted_trades_def split: if_splits)
  with assms(2) have n: "list_all (\<lambda>t. \<not> is_str (time t)) ys"
    by (auto simp: list_all_iff)
  show ?thesis
  proof (cases ys)
    case Nil
    with False show ?thesis by (simp add: ascending_def)
  next
    case (Cons y ys')
    with n have "\<not> list_all (\<lambda>t. is_str (time t)) ys" by auto
    with False show ?thesis by (simp add: ascending_def)
  qed
qed

lemma sorted_trades_sub_log:
  assumes "sorted_trades ts = Some xs"
  shows "sub_log s (filter (readable c) xs) = ascending (sub_log s (filter (readable c) ts))"
proof -
  have sub: "set (sub_log s (filter (readable c) ts)) \<subseteq> set ts"
    by (auto simp: sub_log_def)
  show ?thesis
    using assms ascending_within [OF assms sub]
    by (auto simp: sorted_trades_def sub_log_def filter_sort split: if_splits)
qed

lemma fifo_ledger_no_raise:
  assumes "\<not> raises c ts"
  shows "\<exists>invs. fifo_ledger c ts = Some (invs, spec_realized_pnl c (filter (readable c) ts)) \<and>
           (\<forall>s. inv_of invs s = remaining [] (ascending (sub_log s (filter (readable c) ts))))"
proof -
  from assms obtain xs where xs: "sorted_trades ts = Some xs"
    and nr: "\<not> list_ex (\<lambda>t. parse_time c (time t) = Raised) ts"
    by (auto simp: raises_def)
  have setxs: "set xs = set ts"
    using xs by (auto simp: sorted_trades_def split: if_splits)
  define kept where "kept = filter (readable c) xs"
  define S where "S = set (map trade_symbol (filter (readable c) ts))"
  have nr': "\<not> list_ex (\<lambda>t. parse_time c (time t) = Raised) xs"
    using nr setxs by (simp add: list_ex_iff)
  have dated: "list_all (\<lambda>t. \<exists>d. parse_time c (time t) = Dated d) kept"
  proof -
    have "\<exists>d. parse_time c (time t) = Dated d" if "t \<in> set kept" for t
    proof -
      from that have "readable c t" "t \<in> set xs" by (simp_all add: kept_def)
      with nr' show ?thesis
        by (cases "parse_time c (time t)") (auto simp: readable_def list_ex_iff)
    qed
    then show ?thesis by (simp add: list_all_iff)
  qed
  have fin: "finite S" by (simp add: S_def)
  have sub: "trade_symbol ` set kept \<subseteq> S"
    using setxs by (auto simp: kept_def S_def)
  from run_trades_by_symbol [OF dated fin sub, of Map.empty 0]
  obtain invs where run: "run_trades c kept (Map.empty, 0) =
      Some (invs, 0 + (\<Sum>s\<in>S. realized c (inv_of Map.empty s) (sub_log s kept)))"
    and rem: "\<And>s. inv_of invs s = remaining (inv_of Map.empty s) (sub_log s kept)"
    by blast
  have e: "inv_of Map.empty s = []" for s by (simp add: inv_of_def)
  have k: "sub_log s kept = ascending (sub_log s (filter (readable c) ts))" for s
    unfolding kept_def by (rule sorted_trades_sub_log [OF xs])
  have "spec_realized_pnl c (filter (readable c) ts) =
      (\<Sum>s\<in>S. realized c [] (ascending (sub_log s (filter (readable c) ts))))"
    unfolding spec_realized_pnl_def S_def
    by (subst sum_list_distinct_conv_sum_set) simp_all
  then have "run_trades c kept (Map.empty, 0) =
      Some (invs, spec_realized_pnl c (filter (readable c) ts))"
    using run by (simp add: e k)
  moreover have "fifo_ledger c ts = run_trades c kept (Map.empty, 0)"
    using xs run_trades_readable [OF nr'] by (simp add: fifo_ledger_def kept_def)
  ultimately show ?thesis
    using rem by (auto simp: e k)
qed

lemma fifo_ledger_raise:
  assumes "raises c ts"
  shows "fifo_ledger c ts = None"
proof (cases "sorted_trades ts")
  case None
  then show ?thesis by (simp add: fifo_ledger_def)
next
  case (Some xs)
  then have "set xs = set ts"
    by (auto simp: sorted_trades_def split: if_splits)
  with assms Some have "list_ex (\<lambda>t. parse_time c (time t) = Raised) xs"
    by (simp add: raises_def list_ex_iff)
  then show ?thesis
    using Some by (simp add: fifo_ledger_def run_trades_raised)
qed

lemma daily_pnl_eq:
  "calculate_daily_realized_pnl c ts =
     (if raises c ts then 0 else spec_realized_pnl c (filter (readable c) ts))"
proof (cases "raises c ts")
  case True
  then show ?thesis
    by (simp add: calculate_daily_realized_pnl_def fifo_ledger_raise)
next
  case False
  from fifo_ledger_no_raise [OF this] show ?thesis
    using False by (auto simp: calculate_daily_realized_pnl_def)
qed

subsection \<open>The two example logs\<close>

lemma upper_BUY: "upper ''BUY'' = ''BUY''"
  by code_simp

lemma upper_SELL: "upper ''SELL'' = ''SELL''"
  by code_simp

lemma fifo_ledger_buy_then_sell:
  assumes "fromisoformat c t1 = Some d" and "fromisoformat c t2 = Some (today c)" and "t1 \<le> t2"
  shows "fifo_ledger c
           [\<lparr>time = TStr t1, side = ''BUY'', price = p1, amount = a1, symbol = sy\<rparr>,
            \<lparr>time = TStr t2, side = ''SELL'', price = p2, amount = a2, symbol = sy\<rparr>] =
         (case consume a2 0 [\<lparr>b_price = p1, b_amount = a1\<rparr>] of
            (q, cost, rest) \<Rightarrow>
              Some ((Map.empty :: inventories)
                      ((case sy of None \<Rightarrow> ''BTC/USDT'' | Some s \<Rightarrow> s) \<mapsto> rest),
                    p2 * a2 - (if q > 0 then cost + p2 * q else cost)))"
  using assms
  by (simp add: fifo_ledger_def sorted_trades_def str_key_def trade_step_def parse_time_def
      trade_symbol_def upper_BUY upper_SELL Let_def split: prod.splits)

text \<open>
  The loop against the declarative ledger, for every calendar and every trade log. When no
  exception is raised, the function is the declarative ledger of the records whose time it
  can read: the log partitioned by symbol, each part in ascending time order through one
  FIFO queue of lots, each sale contributing its price times amount minus the cost of the
  lots withdrawn, the unmatched remainder costed at the sale price, summed over the sales
  dated today. A purchase of 1 at 100 followed by a sale of 1 at 110 dated today yields 10,
  and a purchase of 2 at 100 followed by a sale of 1 at 90 dated today yields -10 and leaves
  one lot of 1 at 100.
\<close>

theorem daily_pnl_is_fifo_by_symbol:
  "calculate_daily_realized_pnl c ts =
     (if raises c ts then 0 else spec_realized_pnl c (filter (readable c) ts)) \<and>
   (fromisoformat c t1 = Some d \<and> fromisoformat c t2 = Some (today c) \<and> t1 \<le> t2 \<longrightarrow>
      calculate_daily_realized_pnl c
        [\<lparr>time = TStr t1, side = ''BUY'', price = 100, amount = 1, symbol = sy\<rparr>,
         \<lparr>time = TStr t2, side = ''SELL'', price = 110, amount = 1, symbol = sy\<rparr>] = 10) \<and>
   (fromisoformat c t1 = Some d \<and> fromisoformat c t2 = Some (today c) \<and> t1 \<le> t2 \<longrightarrow>
      (\<exists>invs. fifo_ledger c
          [\<lparr>time = TStr t1, side = ''BUY'', price = 100, amount = 2, symbol = sy\<rparr>,
           \<lparr>time = TStr t2, side = ''SELL'', price = 90, amount = 1, symbol = sy\<rparr>] =
            Some (invs, - 10) \<and>
          invs (case sy of None \<Rightarrow> ''BTC/USDT'' | Some s \<Rightarrow> s) =
            Some [\<lparr>b_price = 100, b_amount = 1\<rparr>]))"
proof (intro conjI impI)
  show "calculate_daily_realized_pnl c ts =
     (if raises c ts then 0 else spec_realized_pnl c (filter (readable c) ts))"
    by (rule daily_pnl_eq)
next
  assume "fromisoformat c t1 = Some d \<and> fromisoformat c t2 = Some (today c) \<and> t1 \<le> t2"
  then have a: "fromisoformat c t1 = Some d" "fromisoformat c t2 = Some (today c)" "t1 \<le> t2"
    by simp_all
  show "calculate_daily_realized_pnl c
        [\<lparr>time = TStr t1, side = ''BUY'', price = 100, amount = 1, symbol = sy\<rparr>,
         \<lparr>time = TStr t2, side = ''SELL'', price = 110, amount = 1, symbol = sy\<rparr>] = 10"
    by (simp add: calculate_daily_realized_pnl_def fifo_ledger_buy_then_sell [OF a])
next
  assume "fromisoformat c t1 = Some d \<and> fromisoformat c t2 = Some (today c) \<and> t1 \<le> t2"
  then have a: "fromisoformat c t1 = Some d" "fromisoformat c t2 = Some (today c)" "t1 \<le> t2"
    by simp_all
  show "\<exists>invs. fifo_ledger c
          [\<lparr>time = TStr t1, side = ''BUY'', price = 100, amount = 2, symbol = sy\<rparr>,
           \<lparr>time = TStr t2, side = ''SELL'', price = 90, amount = 1, symbol = sy\<rparr>] =
            Some (invs, - 10) \<and>
          invs (case sy of None \<Rightarrow> ''BTC/USDT'' | Some s \<Rightarrow> s) =
            Some [\<lparr>b_price = 100, b_amount = 1\<rparr>]"
    by (simp add: fifo_ledger_buy_then_sell [OF a])
qed

theorem daily_pnl_is_fifo_by_symbol_witness:
  "\<not> raises jan2 buy_sell_log \<and>
   filter (readable jan2) buy_sell_log = buy_sell_log \<and>
   calculate_daily_realized_pnl jan2 buy_sell_log = spec_realized_pnl jan2 buy_sell_log \<and>
   calculate_daily_realized_pnl jan2 buy_sell_log = 10 \<and>
   (\<exists>invs. fifo_ledger jan2
      [\<lparr>time = TStr ''2024-01-02T10:00:00'', side = ''BUY'', price = 100, amount = 2,
        symbol = Some ''BTC/USDT''\<rparr>,
       \<lparr>time = TStr ''2024-01-02T11:00:00'', side = ''SELL'', price = 90, amount = 1,
        symbol = Some ''BTC/USDT''\<rparr>] = Some (invs, - 10) \<and>
      invs ''BTC/USDT'' = Some [\<lparr>b_price = 100, b_amount = 1\<rparr>])"
proof -
  have nr: "\<not> raises jan2 buy_sell_log"
    by (simp add: raises_def sorted_trades_def buy_sell_log_def parse_time_def jan2_def)
  have rd: "filter (readable jan2) buy_sell_log = buy_sell_log"
    by (simp add: readable_def buy_sell_log_def parse_time_def jan2_def)
  have h: "fromisoformat jan2 ''2024-01-02T10:00:00'' = Some (2024, 1, 2) \<and>
      fromisoformat jan2 ''2024-01-02T11:00:00'' = Some (today jan2) \<and>
      ''2024-01-02T10:00:00'' \<le> ''2024-01-02T11:00:00''"
    by (simp add: jan2_def)
  note inst = daily_pnl_is_fifo_by_symbol [of jan2 buy_sell_log "''2024-01-02T10:00:00''"
      "(2024, 1, 2)" "''2024-01-02T11:00:00''" "Some ''BTC/USDT''"]
  have e1: "calculate_daily_realized_pnl jan2 buy_sell_log = spec_realized_pnl jan2 buy_sell_log"
    using inst nr rd by simp
  have e2: "calculate_daily_realized_pnl jan2 buy_sell_log = 10"
    using inst h unfolding buy_sell_log_def by blast
  have e3: "\<exists>invs. fifo_ledger jan2
      [\<lparr>time = TStr ''2024-01-02T10:00:00'', side = ''BUY'', price = 100, amount = 2,
        symbol = Some ''BTC/USDT''\<rparr>,
       \<lparr>time = TStr ''2024-01-02T11:00:00'', side = ''SELL'', price = 90, amount = 1,
        symbol = Some ''BTC/USDT''\<rparr>] = Some (invs, - 10) \<and>
      invs ''BTC/USDT'' = Some [\<lparr>b_price = 100, b_amount = 1\<rparr>]"
    using inst h by simp
  from nr rd e1 e2 e3 show ?thesis by blast
qed

subsection \<open>Order of the records in the log\<close>

lemma sorted_trades_permuted:
  assumes "mset ts' = mset ts" and "distinct (map time ts)"
  shows "sorted_trades ts' = sorted_trades ts"
proof -
  have set_eq: "set ts' = set ts" using assms(1) by (rule mset_eq_setD)
  have all_eq: "list_all P ts' = list_all P ts" for P
    by (simp add: list_all_iff set_eq)
  have inj_time: "inj_on time (set ts)"
    using assms(2) by (simp add: distinct_map)
  have inj_str: "inj_on str_key (set ts)" if "list_all (\<lambda>t. is_str (time t)) ts"
  proof (rule inj_onI)
    fix x y assume xy: "x \<in> set ts" "y \<in> set ts" "str_key x = str_key y"
    with that have "is_str (time x)" "is_str (time y)" by (simp_all add: list_all_iff)
    with xy(3) have "time x = time y"
      by (cases "time x"; cases "time y") (simp_all add: str_key_def)
    with inj_time xy show "x = y" by (simp add: inj_on_def)
  qed
  have inj_num: "inj_on num_key (set ts)" if "list_all (\<lambda>t. \<not> is_str (time t)) ts"
  proof (rule inj_onI)
    fix x y assume xy: "x \<in> set ts" "y \<in> set ts" "num_key x = num_key y"
    with that have "\<not> is_str (time x)" "\<not> is_str (time y)" by (simp_all add: list_all_iff)
    with xy(3) have "time x = time y"
      by (cases "time x"; cases "time y") (simp_all add: num_key_def)
    with inj_time xy show "x = y" by (simp add: inj_on_def)
  qed
  have "sort_key str_key ts' = sort_key str_key ts" if "list_all (\<lambda>t. is_str (time t)) ts"
    using assms(1) inj_str [OF that] set_eq by (intro sort_key_eq_sort_key) simp_all
  moreover
  have "sort_key num_key ts' = sort_key num_key ts" if "list_all (\<lambda>t. \<not> is_str (time t)) ts"
    using assms(1) inj_num [OF that] set_eq by (intro sort_key_eq_sort_key) simp_all
  ultimately show ?thesis
    by (simp add: sorted_trades_def all_eq)
qed

text \<open>
  C8. When the records of a log carry pairwise distinct timestamps, every permutation of
  the log yields the same daily realized PnL: the sort by time puts the records in one and
  the same order before the FIFO matching.
\<close>

theorem daily_pnl_order_independent:
  assumes "mset ts' = mset ts" and "distinct (map time ts)"
  shows "calculate_daily_realized_pnl c ts' = calculate_daily_realized_pnl c ts"
  using sorted_trades_permuted [OF assms]
  by (simp add: calculate_daily_realized_pnl_def fifo_ledger_def)

theorem daily_pnl_order_independent_witness:
  "mset sell_buy_log = mset buy_sell_log \<and> distinct (map time buy_sell_log) \<and>
   sell_buy_log \<noteq> buy_sell_log \<and>
   calculate_daily_realized_pnl jan2 sell_buy_log = 10 \<and>
   calculate_daily_realized_pnl jan2 buy_sell_log = 10"
proof -
  have m: "mset sell_buy_log = mset buy_sell_log"
    by (simp add: sell_buy_log_def)
  have d: "distinct (map time buy_sell_log)"
    by (simp add: buy_sell_log_def)
  have n: "sell_buy_log \<noteq> buy_sell_log"
    by (simp add: sell_buy_log_def buy_sell_log_def)
  have v: "calculate_daily_realized_pnl jan2 buy_sell_log = 10"
    by (simp add: calculate_daily_realized_pnl_def fifo_ledger_def sorted_trades_def
        str_key_def trade_step_def parse_time_def trade_symbol_def upper_BUY upper_SELL
        Let_def jan2_def buy_sell_log_def)
  from daily_pnl_order_independent [OF m d, of jan2] m d n v show ?thesis by simp
qed

section \<open>Properties of the ledger on the store\<close>

lemma read_trades_fst: "read_trades h as = Some ps \<Longrightarrow> map fst ps = as"
  by (induction as arbitrary: ps) (auto split: option.splits)

lemma read_trades_each:
  "read_trades h as = Some ps \<Longrightarrow> (a, t) \<in> set ps \<Longrightarrow> read_trade h a = Some t"
  by (induction as arbitrary: ps) (auto split: option.splits)

lemma read_trades_pairs:
  "(\<And>a t. (a, t) \<in> set qs \<Longrightarrow> read_trade h a = Some t) \<Longrightarrow>
   read_trades h (map fst qs) = Some qs"
proof (induction qs)
  case Nil
  then show ?case by simp
next
  case (Cons p qs)
  obtain a t where p: "p = (a, t)" by (cases p)
  have "read_trade h a = Some t" using Cons.prems [of a t] p by simp
  moreover have "read_trades h (map fst qs) = Some qs"
    using Cons.prems by (intro Cons.IH) simp
  ultimately show ?case using p by simp
qed

lemma read_trade_below:
  assumes "take n h' = take n h" and "a < n" and "n \<le> length h" and "n \<le> length h'"
  shows "read_trade h' a = read_trade h a"
proof -
  have "h' ! a = take n h' ! a" using assms(2) by simp
  also have "\<dots> = take n h ! a" using assms(1) by simp
  also have "\<dots> = h ! a" using assms(2) by simp
  finally show ?thesis using assms by (simp add: read_trade_def)
qed

lemma read_trades_below:
  assumes "take n h' = take n h" and "n \<le> length h" and "n \<le> length h'"
    and "\<forall>a\<in>set as. a < n"
  shows "read_trades h' as = read_trades h as"
  using assms(4)
proof (induction as)
  case Nil
  then show ?case by simp
next
  case (Cons a as)
  then have "a < n" and "read_trades h' as = read_trades h as" by simp_all
  with read_trade_below [OF assms(1) _ assms(2,3), of a] show ?case
    by (simp split: option.splits)
qed

lemma map_insort_key:
  "map g (insort_key (\<lambda>x. f (g x)) x xs) = insort_key f (g x) (map g xs)"
  by (induction xs) simp_all

lemma map_sort_key: "map g (sort_key (\<lambda>x. f (g x)) xs) = sort_key f (map g xs)"
  by (induction xs) (simp_all add: map_insort_key)

lemma sorted_pairs_valid:
  fixes k :: "addr \<times> trade \<Rightarrow> 'k::linorder"
  assumes "read_trades h as = Some ps"
  shows "read_trades h (map fst (sort_key k ps)) = Some (sort_key k ps)"
    and "set (map fst (sort_key k ps)) = set as"
proof -
  have "read_trade h a = Some t" if "(a, t) \<in> set (sort_key k ps)" for a t
    using that read_trades_each [OF assms] by simp
  then show "read_trades h (map fst (sort_key k ps)) = Some (sort_key k ps)"
    by (rule read_trades_pairs)
  have "set (map fst (sort_key k ps)) = set (map fst ps)" by simp
  then show "set (map fst (sort_key k ps)) = set as"
    using read_trades_fst [OF assms] by simp
qed

lemma sorted_refs_refines:
  assumes "read_trades h as = Some ps"
  shows "case sorted_trades (map snd ps) of
           None \<Rightarrow> sorted_refs h as = Failed h
         | Some xs \<Rightarrow> \<exists>qs. sorted_refs h as = Ran h (map fst qs) \<and>
                          read_trades h (map fst qs) = Some qs \<and> map snd qs = xs \<and>
                          set (map fst qs) = set as"
proof -
  have a1: "list_all (\<lambda>p. is_str (time (snd p))) ps = list_all (\<lambda>t. is_str (time t)) (map snd ps)"
    by (simp add: list_all_iff)
  have a2: "list_all (\<lambda>p. \<not> is_str (time (snd p))) ps =
      list_all (\<lambda>t. \<not> is_str (time t)) (map snd ps)"
    by (simp add: list_all_iff)
  show ?thesis
  proof (cases "list_all (\<lambda>t. is_str (time t)) (map snd ps)")
    case True
    let ?qs = "sort_key (\<lambda>p. str_key (snd p)) ps"
    have "sorted_refs h as = Ran h (map fst ?qs)"
      using assms True by (simp add: sorted_refs_def a1)
    moreover have "map snd ?qs = sort_key str_key (map snd ps)" by (rule map_sort_key)
    ultimately show ?thesis
      using True sorted_pairs_valid [OF assms, of "\<lambda>p. str_key (snd p)"]
      by (auto simp: sorted_trades_def simp del: set_map)
  next
    case str: False
    show ?thesis
    proof (cases "list_all (\<lambda>t. \<not> is_str (time t)) (map snd ps)")
      case True
      let ?qs = "sort_key (\<lambda>p. num_key (snd p)) ps"
      have "sorted_refs h as = Ran h (map fst ?qs)"
        using assms True str by (simp add: sorted_refs_def a1 a2)
      moreover have "map snd ?qs = sort_key num_key (map snd ps)" by (rule map_sort_key)
      ultimately show ?thesis
        using True str sorted_pairs_valid [OF assms, of "\<lambda>p. num_key (snd p)"]
        by (auto simp: sorted_trades_def simp del: set_map)
    next
      case False
      with str assms show ?thesis
        by (simp add: sorted_trades_def sorted_refs_def a1 a2)
    qed
  qed
qed

lemma consume_st_refines:
  assumes "map (read_batch h) as = map Some bs" and "distinct as"
  shows "\<exists>h' as'. consume_st h q cost as =
             Some (h', fst (consume q cost bs), fst (snd (consume q cost bs)), as') \<and>
           map (read_batch h') as' = map Some (snd (snd (consume q cost bs))) \<and>
           set as' \<subseteq> set as \<and> distinct as' \<and> length h' = length h \<and>
           (\<forall>a. a \<notin> set as \<longrightarrow> h' ! a = h ! a)"
  using assms
proof (induction as arbitrary: bs q cost)
  case Nil
  then show ?case by simp
next
  case (Cons a as)
  then obtain b bs' where bs: "bs = b # bs'" and b: "read_batch h a = Some b"
    and rest: "map (read_batch h) as = map Some bs'"
    by (cases bs) auto
  from Cons.prems have dist: "a \<notin> set as" "distinct as" by simp_all
  show ?case
  proof (cases "q > 0")
    case False
    then show ?thesis using Cons.prems bs by simp
  next
    case True
    show ?thesis
    proof (cases "b_amount b > q")
      case big: True
      have alen: "a < length h" using b by (simp add: read_batch_def split: if_splits)
      define h' where "h' = h[a := BatchObj (b\<lparr>b_amount := b_amount b - q\<rparr>)]"
      have ra: "read_batch h' a = Some (b\<lparr>b_amount := b_amount b - q\<rparr>)"
        using alen by (simp add: h'_def read_batch_def)
      have others: "read_batch h' x = read_batch h x" if "x \<noteq> a" for x
        using that by (simp add: h'_def read_batch_def)
      have "map (read_batch h') as = map (read_batch h) as"
      proof (rule map_cong [OF refl])
        fix x assume "x \<in> set as"
        with dist(1) have "x \<noteq> a" by auto
        then show "read_batch h' x = read_batch h x" by (rule others)
      qed
      with rest ra have "map (read_batch h') (a # as) =
          map Some (b\<lparr>b_amount := b_amount b - q\<rparr> # bs')" by simp
      moreover have "\<forall>x. x \<notin> set (a # as) \<longrightarrow> h' ! x = h ! x"
        by (simp add: h'_def)
      moreover have "length h' = length h" by (simp add: h'_def)
      ultimately show ?thesis
        using True big b bs Cons.prems(2) by (simp add: h'_def)
    next
      case small: False
      from Cons.IH [OF rest dist(2), of "q - b_amount b" "cost + b_price b * b_amount b"]
      show ?thesis
        using True small b bs dist by auto
    qed
  qed
qed


lemma rep_current:
  assumes "rep n h ivs invs"
  shows "map (read_batch h) (inv_addrs ivs s) = map Some (inv_of invs s)"
    and "distinct (inv_addrs ivs s)"
    and "\<forall>a\<in>set (inv_addrs ivs s). n \<le> a \<and> a < length h"
proof -
  from assms have r: "rel_option (\<lambda>as bs. map (read_batch h) as = map Some bs) (ivs s) (invs s)"
    and d: "\<And>as. ivs s = Some as \<Longrightarrow> distinct as \<and> (\<forall>a\<in>set as. n \<le> a \<and> a < length h)"
    by (simp_all add: rep_def)
  from r show "map (read_batch h) (inv_addrs ivs s) = map Some (inv_of invs s)"
    by (cases "ivs s"; cases "invs s") (simp_all add: inv_addrs_def inv_of_def)
  from d show "distinct (inv_addrs ivs s)"
    by (cases "ivs s") (simp_all add: inv_addrs_def)
  from d show "\<forall>a\<in>set (inv_addrs ivs s). n \<le> a \<and> a < length h"
    by (cases "ivs s") (simp_all add: inv_addrs_def)
qed

lemma rep_update:
  assumes r: "rep n h ivs invs"
    and len: "length h \<le> length h'"
    and keep: "\<And>x. x < length h \<Longrightarrow> x \<notin> set (inv_addrs ivs s) \<Longrightarrow> h' ! x = h ! x"
    and new: "map (read_batch h') as' = map Some bs'"
    and dist: "distinct as'"
    and bound: "\<forall>a\<in>set as'. n \<le> a \<and> a < length h'"
    and origin: "\<forall>a\<in>set as'. a \<in> set (inv_addrs ivs s) \<or> length h \<le> a"
  shows "rep n h' (ivs(s \<mapsto> as')) (invs(s \<mapsto> bs'))"
proof -
  from r have rel: "\<And>u. rel_option (\<lambda>as bs. map (read_batch h) as = map Some bs) (ivs u) (invs u)"
    and own: "\<And>u as. ivs u = Some as \<Longrightarrow> distinct as \<and> (\<forall>a\<in>set as. n \<le> a \<and> a < length h)"
    and sep: "\<And>u u' as as2. u \<noteq> u' \<Longrightarrow> ivs u = Some as \<Longrightarrow> ivs u' = Some as2 \<Longrightarrow>
        set as \<inter> set as2 = {}"
    by (simp_all add: rep_def)
  have apart: "set as' \<inter> set as2 = {}" if "u \<noteq> s" "ivs u = Some as2" for u as2
  proof -
    have "a \<notin> set as2" if a: "a \<in> set as'" for a
    proof (cases "a \<in> set (inv_addrs ivs s)")
      case True
      then obtain as where "ivs s = Some as" "a \<in> set as"
        by (cases "ivs s") (auto simp: inv_addrs_def)
      with sep [of s u as as2] \<open>u \<noteq> s\<close> \<open>ivs u = Some as2\<close> show ?thesis by auto
    next
      case False
      with origin a have "length h \<le> a" by auto
      with own [OF \<open>ivs u = Some as2\<close>] show ?thesis by auto
    qed
    then show ?thesis by auto
  qed
  have other: "read_batch h' x = read_batch h x" if "u \<noteq> s" "ivs u = Some as2" "x \<in> set as2"
    for u as2 x
  proof -
    from own [OF that(2)] that(3) have xl: "x < length h" by auto
    have "x \<notin> set (inv_addrs ivs s)"
    proof (cases "ivs s")
      case None
      then show ?thesis by (simp add: inv_addrs_def)
    next
      case (Some as)
      with sep [of u s as2 as] that show ?thesis by (auto simp: inv_addrs_def)
    qed
    from keep [OF xl this] xl len show ?thesis by (simp add: read_batch_def)
  qed
  have 1: "rel_option (\<lambda>as bs. map (read_batch h') as = map Some bs)
      ((ivs(s \<mapsto> as')) u) ((invs(s \<mapsto> bs')) u)" for u
  proof (cases "u = s")
    case True
    then show ?thesis using new by simp
  next
    case False
    show ?thesis
    proof (cases "ivs u")
      case None
      with rel [of u] False show ?thesis by (cases "invs u") simp_all
    next
      case (Some as2)
      with rel [of u] obtain bs2 where bs2: "invs u = Some bs2"
        "map (read_batch h) as2 = map Some bs2"
        by (cases "invs u") simp_all
      have "map (read_batch h') as2 = map (read_batch h) as2"
        by (rule map_cong [OF refl]) (rule other [OF False Some])
      with bs2 Some False show ?thesis by simp
    qed
  qed
  have 2: "distinct as \<and> (\<forall>a\<in>set as. n \<le> a \<and> a < length h')"
    if "(ivs(s \<mapsto> as')) u = Some as" for u as
  proof (cases "u = s")
    case True
    with that dist bound show ?thesis by simp
  next
    case False
    with that own [of u as] len show ?thesis by auto
  qed
  have 3: "set as \<inter> set as2 = {}"
    if "u \<noteq> u'" "(ivs(s \<mapsto> as')) u = Some as" "(ivs(s \<mapsto> as')) u' = Some as2" for u u' as as2
  proof (cases "u = s")
    case True
    with that have "as = as'" "u' \<noteq> s" "ivs u' = Some as2" by auto
    with apart [of u' as2] show ?thesis by simp
  next
    case us: False
    show ?thesis
    proof (cases "u' = s")
      case True
      with that us have "as2 = as'" "ivs u = Some as" by auto
      with apart [of u as] us show ?thesis by auto
    next
      case False
      with us that sep [of u u' as as2] show ?thesis by simp
    qed
  qed
  show ?thesis
    unfolding rep_def using 1 2 3 by blast
qed

lemma trade_step_st_refines:
  assumes r: "rep n h ivs invs" and n: "n \<le> length h" and rt: "read_trade h a = Some t"
  shows "case trade_step c t (invs, acc) of
           None \<Rightarrow> trade_step_st c a h (ivs, acc) = Failed h
         | Some st' \<Rightarrow>
             \<exists>h' ivs'. trade_step_st c a h (ivs, acc) = Ran h' (ivs', snd st') \<and>
               rep n h' ivs' (fst st') \<and> length h \<le> length h' \<and> take n h' = take n h"
proof (cases "parse_time c (time t)")
  case Skipped
  with r rt show ?thesis by (auto simp: trade_step_def trade_step_st_def)
next
  case Raised
  with rt show ?thesis by (simp add: trade_step_def trade_step_st_def)
next
  case (Dated d)
  define s where "s = trade_symbol t"
  define as where "as = inv_addrs ivs s"
  define bs where "bs = inv_of invs s"
  note cur = rep_current [OF r, of s, folded as_def bs_def]
  have as_eq: "(case ivs s of None \<Rightarrow> [] | Some lots \<Rightarrow> lots) = as"
    by (simp add: as_def inv_addrs_def)
  have bs_eq: "(case invs s of None \<Rightarrow> [] | Some lots \<Rightarrow> lots) = bs"
    by (simp add: bs_def inv_of_def)
  show ?thesis
  proof (cases "upper (side t) = ''BUY''")
    case True
    define b where "b = \<lparr>b_price = price t, b_amount = amount t\<rparr>"
    define h' where "h' = h @ [BatchObj b]"
    have old: "read_batch h' x = read_batch h x" if "x < length h" for x
      using that by (simp add: h'_def read_batch_def nth_append)
    have "map (read_batch h') as = map (read_batch h) as"
      by (rule map_cong [OF refl]) (use cur(3) old in auto)
    moreover have "read_batch h' (length h) = Some b"
      by (simp add: h'_def read_batch_def)
    ultimately have new: "map (read_batch h') (as @ [length h]) = map Some (bs @ [b])"
      using cur(1) by simp
    have "rep n h' (ivs(s \<mapsto> as @ [length h])) (invs(s \<mapsto> bs @ [b]))"
    proof (rule rep_update [OF r _ _ new])
      show "length h \<le> length h'" by (simp add: h'_def)
      show "h' ! x = h ! x" if "x < length h" for x
        using that by (simp add: h'_def nth_append)
      show "distinct (as @ [length h])" using cur(2,3) by auto
      show "\<forall>a\<in>set (as @ [length h]). n \<le> a \<and> a < length h'"
        using cur(3) n by (auto simp: h'_def)
      show "\<forall>a\<in>set (as @ [length h]). a \<in> set (inv_addrs ivs s) \<or> length h \<le> a"
        by (auto simp: as_def)
    qed
    moreover have "take n h' = take n h" using n by (simp add: h'_def)
    moreover have "length h \<le> length h'" by (simp add: h'_def)
    ultimately show ?thesis
      using Dated True rt
      by (simp add: trade_step_def trade_step_st_def Let_def as_eq bs_eq s_def [symmetric]
          h'_def b_def)
  next
    case nb: False
    show ?thesis
    proof (cases "upper (side t) = ''SELL''")
      case True
      from consume_st_refines [OF cur(1) cur(2), of "amount t" 0]
      obtain h' as' where
        c: "consume_st h (amount t) 0 as =
              Some (h', fst (consume (amount t) 0 bs), fst (snd (consume (amount t) 0 bs)), as')"
        and m: "map (read_batch h') as' = map Some (snd (snd (consume (amount t) 0 bs)))"
        and sub: "set as' \<subseteq> set as" and dist: "distinct as'"
        and len: "length h' = length h" and keep: "\<And>x. x \<notin> set as \<Longrightarrow> h' ! x = h ! x"
        by blast
      have "rep n h' (ivs(s \<mapsto> as')) (invs(s \<mapsto> snd (snd (consume (amount t) 0 bs))))"
      proof (rule rep_update [OF r _ _ m dist])
        show "length h \<le> length h'" using len by simp
        show "h' ! x = h ! x" if "x \<notin> set (inv_addrs ivs s)" for x
          using that keep by (simp add: as_def)
        show "\<forall>a\<in>set as'. n \<le> a \<and> a < length h'"
          using sub cur(3) len by auto
        show "\<forall>a\<in>set as'. a \<in> set (inv_addrs ivs s) \<or> length h \<le> a"
          using sub by (auto simp: as_def)
      qed
      moreover have "take n h' = take n h"
      proof (rule nth_take_lemma)
        show "n \<le> length h'" "n \<le> length h" using n len by simp_all
        show "i < n \<longrightarrow> h' ! i = h ! i" for i
        proof
          assume "i < n"
          then have "i \<notin> set as" using cur(3) by force
          then show "h' ! i = h ! i" by (rule keep)
        qed
      qed
      ultimately show ?thesis
        using Dated nb True rt c len
        by (auto simp: trade_step_def trade_step_st_def Let_def as_eq bs_eq s_def [symmetric]
            split: prod.splits)
    next
      case False
      have "rep n h (ivs(s \<mapsto> as)) (invs(s \<mapsto> bs))"
      proof (rule rep_update [OF r _ _ cur(1) cur(2) cur(3)])
        show "\<forall>a\<in>set as. a \<in> set (inv_addrs ivs s) \<or> length h \<le> a"
          by (simp add: as_def)
      qed simp_all
      then show ?thesis
        using Dated nb False rt
        by (simp add: trade_step_def trade_step_st_def Let_def as_eq bs_eq s_def [symmetric])
    qed
  qed
qed


lemma run_trades_st_refines:
  assumes "rep n h ivs invs" and "n \<le> length h" and "read_trades h as = Some ps"
    and "\<forall>a\<in>set as. a < n"
  shows "case run_trades c (map snd ps) (invs, acc) of
           None \<Rightarrow> \<exists>h'. run_trades_st c as h (ivs, acc) = Failed h' \<and>
                      n \<le> length h' \<and> take n h' = take n h
         | Some st' \<Rightarrow>
             \<exists>h' ivs'. run_trades_st c as h (ivs, acc) = Ran h' (ivs', snd st') \<and>
               rep n h' ivs' (fst st') \<and> n \<le> length h' \<and> take n h' = take n h"
  using assms
proof (induction as arbitrary: h ivs invs acc ps)
  case Nil
  then show ?case by simp
next
  case (Cons a as)
  from Cons.prems(3) obtain t ps' where t: "read_trade h a = Some t"
    and ps': "read_trades h as = Some ps'" and ps: "ps = (a, t) # ps'"
    by (auto split: option.splits)
  note step = trade_step_st_refines [OF Cons.prems(1,2) t, of c acc]
  show ?case
  proof (cases "trade_step c t (invs, acc)")
    case None
    with step Cons.prems(2) show ?thesis by (simp add: ps)
  next
    case (Some st1)
    with step obtain h1 ivs1 where
      s1: "trade_step_st c a h (ivs, acc) = Ran h1 (ivs1, snd st1)"
      and r1: "rep n h1 ivs1 (fst st1)" and l1: "length h \<le> length h1"
      and k1: "take n h1 = take n h"
      by auto
    have n1: "n \<le> length h1" using l1 Cons.prems(2) by simp
    have below: "\<forall>a\<in>set as. a < n" using Cons.prems(4) by simp
    have "read_trades h1 as = Some ps'"
      using read_trades_below [OF k1 Cons.prems(2) n1 below] ps' by simp
    from Cons.IH [OF r1 n1 this below, of "snd st1"]
    show ?thesis
      using Some s1 k1 by (auto simp: ps split: option.splits)
  qed
qed

lemma rep_empty: "rep n h Map.empty Map.empty"
  by (simp add: rep_def)

lemma read_trades_bound:
  "read_trades h as = Some ps \<Longrightarrow> \<forall>a\<in>set as. a < length h"
  by (induction as arbitrary: ps) (auto simp: read_trade_def split: option.splits if_splits)

lemma calculate_st_refines:
  assumes "log_records h as = Some ts"
  shows "\<exists>h'. calculate_daily_realized_pnl_st c h as =
                 Some (calculate_daily_realized_pnl c ts, h') \<and>
               length h \<le> length h' \<and> take (length h) h' = h"
proof -
  from assms obtain ps where ps: "read_trades h as = Some ps" and ts: "ts = map snd ps"
    by (auto simp: log_records_def)
  note sr = sorted_refs_refines [OF ps]
  show ?thesis
  proof (cases "sorted_trades ts")
    case None
    with sr ts show ?thesis
      by (simp add: calculate_daily_realized_pnl_st_def calculate_daily_realized_pnl_def
          fifo_ledger_def)
  next
    case (Some xs)
    with sr ts obtain qs where q: "sorted_refs h as = Ran h (map fst qs)"
      "read_trades h (map fst qs) = Some qs" "map snd qs = xs" "set (map fst qs) = set as"
      by auto
    have below: "\<forall>a\<in>set (map fst qs). a < length h"
      using read_trades_bound [OF ps] q(4) by simp
    note run = run_trades_st_refines [OF rep_empty order_refl q(2) below, of c 0]
    show ?thesis
    proof (cases "run_trades c xs (Map.empty, 0)")
      case None
      with run q(3) obtain h' where
        "run_trades_st c (map fst qs) h (Map.empty, 0) = Failed h'"
        "length h \<le> length h'" "take (length h) h' = h"
        by auto
      with None Some q(1) show ?thesis
        by (simp add: calculate_daily_realized_pnl_st_def calculate_daily_realized_pnl_def
            fifo_ledger_def)
    next
      case st: (Some st')
      with run q(3) obtain h' ivs' where
        "run_trades_st c (map fst qs) h (Map.empty, 0) = Ran h' (ivs', snd st')"
        "length h \<le> length h'" "take (length h) h' = h"
        by auto
      with st Some q(1) show ?thesis
        by (simp add: calculate_daily_realized_pnl_st_def calculate_daily_realized_pnl_def
            fifo_ledger_def)
    qed
  qed
qed

lemma log_records_kept:
  assumes "log_records h as = Some ts" and "length h \<le> length h'" and "take (length h) h' = h"
  shows "log_records h' as = Some ts"
proof -
  from assms(1) obtain ps where ps: "read_trades h as = Some ps" and ts: "ts = map snd ps"
    by (auto simp: log_records_def)
  have "take (length h) h' = take (length h) h" using assms(3) by simp
  from read_trades_below [OF this order_refl assms(2) read_trades_bound [OF ps]] ps ts
  show ?thesis by (simp add: log_records_def)
qed

text \<open>
  C2. For every store and every log of trade records in it, a call of the daily realized PnL
  function returns and leaves every object that was in the store before the call as it was
  (the partial fill writes only to batches the call itself allocated), so the log holds the
  same records afterwards, and a second call on the store the first one left returns the
  identical result. The result is the one of the ledger on values.
\<close>

theorem daily_pnl_leaves_log:
  assumes "log_records h refs = Some ts"
  shows "\<exists>r h1 h2.
           calculate_daily_realized_pnl_st c h refs = Some (r, h1) \<and>
           r = calculate_daily_realized_pnl c ts \<and>
           take (length h) h1 = h \<and>
           log_records h1 refs = Some ts \<and>
           calculate_daily_realized_pnl_st c h1 refs = Some (r, h2)"
proof -
  from calculate_st_refines [OF assms, of c] obtain h1 where
    1: "calculate_daily_realized_pnl_st c h refs = Some (calculate_daily_realized_pnl c ts, h1)"
    and l: "length h \<le> length h1" and k: "take (length h) h1 = h"
    by blast
  have kept: "log_records h1 refs = Some ts"
    by (rule log_records_kept [OF assms l k])
  from calculate_st_refines [OF kept, of c] obtain h2 where
    "calculate_daily_realized_pnl_st c h1 refs = Some (calculate_daily_realized_pnl c ts, h2)"
    by blast
  with 1 k kept show ?thesis by blast
qed

theorem daily_pnl_leaves_log_witness:
  "log_records store0 [1, 0] = Some (rev (map (\<lambda>x. case x of TradeObj t \<Rightarrow> t) store0)) \<and>
   calculate_daily_realized_pnl_st jan2 store0 [1, 0] =
     Some (- 10, store0 @ [BatchObj \<lparr>b_price = 100, b_amount = 1\<rparr>]) \<and>
   (\<exists>h2. calculate_daily_realized_pnl_st jan2
            (store0 @ [BatchObj \<lparr>b_price = 100, b_amount = 1\<rparr>]) [1, 0] = Some (- 10, h2))"
proof -
  have l: "log_records store0 [1, 0] = Some (rev (map (\<lambda>x. case x of TradeObj t \<Rightarrow> t) store0))"
    by (simp add: log_records_def read_trade_def store0_def)
  have v: "calculate_daily_realized_pnl_st jan2 store0 [1, 0] =
      Some (- 10, store0 @ [BatchObj \<lparr>b_price = 100, b_amount = 1\<rparr>])"
    by (simp add: calculate_daily_realized_pnl_st_def sorted_refs_def read_trade_def store0_def
        str_key_def trade_step_st_def parse_time_def jan2_def upper_BUY upper_SELL Let_def
        trade_symbol_def read_batch_def)
  from daily_pnl_leaves_log [OF l, of jan2] obtain r h1 h2 where
    "calculate_daily_realized_pnl_st jan2 store0 [1, 0] = Some (r, h1)"
    "calculate_daily_realized_pnl_st jan2 h1 [1, 0] = Some (r, h2)"
    by blast
  with v have "calculate_daily_realized_pnl_st jan2
      (store0 @ [BatchObj \<lparr>b_price = 100, b_amount = 1\<rparr>]) [1, 0] = Some (- 10, h2)"
    by simp
  with l v show ?thesis by blast
qed

section \<open>Properties of the controller\<close>

subsection \<open>The cooldown\<close>

lemma cooled_append:
  "cooled lt (rs1 @ rs2) \<longleftrightarrow> cooled lt rs1 \<and> cooled (stamped lt rs1) rs2"
  by (induction rs1 arbitrary: lt) auto

lemma stamped_append: "stamped lt (rs1 @ rs2) = stamped (stamped lt rs1) rs2"
  by (induction rs1 arbitrary: lt) auto

lemma cooled_after:
  "cooled lt rs \<Longrightarrow> r \<in> set rs \<Longrightarrow>
   req_time r - (case lt (req_symbol r) of None \<Rightarrow> 0 | Some t \<Rightarrow> t) > 300"
proof (induction rs arbitrary: lt)
  case Nil
  then show ?case by simp
next
  case (Cons r1 rs)
  show ?case
  proof (cases "r = r1")
    case True
    with Cons.prems show ?thesis by simp
  next
    case False
    with Cons.prems have "r \<in> set rs" "cooled (lt(req_symbol r1 \<mapsto> req_time r1)) rs"
      and first: "req_time r1 - (case lt (req_symbol r1) of None \<Rightarrow> 0 | Some t \<Rightarrow> t) > 300"
      by simp_all
    from Cons.IH [OF this(2,1)] first show ?thesis
      by (cases "req_symbol r = req_symbol r1") (auto split: option.splits)
  qed
qed

lemma cooled_spaced:
  assumes "cooled lt rs" and "i < j" and "j < length rs"
    and "req_symbol (rs ! i) = req_symbol (rs ! j)"
  shows "req_time (rs ! j) - req_time (rs ! i) > 300"
  using assms
proof (induction rs arbitrary: lt i j)
  case Nil
  then show ?case by simp
next
  case (Cons r rs)
  from Cons.prems(2) obtain j' where j: "j = Suc j'" by (cases j) auto
  from Cons.prems(1) have tail: "cooled (lt(req_symbol r \<mapsto> req_time r)) rs" by simp
  show ?case
  proof (cases i)
    case 0
    from Cons.prems(3) j have "rs ! j' \<in> set rs" by simp
    from cooled_after [OF tail this] Cons.prems(4) 0 j show ?thesis by simp
  next
    case (Suc i')
    with Cons.IH [OF tail, of i' j'] Cons.prems j show ?thesis by simp
  qed
qed

lemma check_signals_table:
  assumes "check_signals s = (Some sg, s')"
  shows "\<exists>rows. df s' = Some rows \<and> rows \<noteq> []"
proof (cases "evaluated_row s")
  case None
  with check_signals_no_row [OF this] assms show ?thesis by simp
next
  case (Some r)
  then obtain rows where "df s = Some rows" "2 \<le> length rows"
    by (auto simp: evaluated_row_def split: option.splits if_splits)
  moreover have "df s' = df s"
    using assms Some
    by (auto simp: check_signals_def exit_signals_def evaluated_row_def Let_def
        split: option.splits if_splits)
  ultimately show ?thesis by auto
qed

lemma execute_order_runs:
  assumes "df strat = Some rows" and "rows \<noteq> []"
  shows "\<exists>ctl'. execute_order gw sg smb strat ctl = Some ctl' \<and>
           last_trade_times ctl' = last_trade_times ctl"
  using assms
  by (auto simp: execute_order_def trade_price_def Let_def split: option.splits)

lemma handle_signal_cooled:
  assumes "df strat = Some rows" and "rows \<noteq> []"
  shows "cooled (last_trade_times ctl) (snd (handle_signal io smb sg strat ctl)) \<and>
         last_trade_times (fst (handle_signal io smb sg strat ctl)) =
           stamped (last_trade_times ctl) (snd (handle_signal io smb sg strat ctl))"
proof -
  from execute_order_runs [OF assms]
  obtain ctl' where "execute_order (exchange io) sg smb strat
      (ctl\<lparr>last_signal := Some (smb @ '': '' @ signal_str sg)\<rparr>) = Some ctl'"
    "last_trade_times ctl' = last_trade_times ctl"
    by fastforce
  then show ?thesis
    by (simp add: handle_signal_def Let_def)
qed

lemma symbol_step_cooled:
  "cooled (last_trade_times ctl) (snd (symbol_step io smb ctl)) \<and>
   last_trade_times (fst (symbol_step io smb ctl)) =
     stamped (last_trade_times ctl) (snd (symbol_step io smb ctl))"
proof (cases "map_of (strategies ctl) smb")
  case None
  then show ?thesis by (simp add: symbol_step_def)
next
  case (Some strat)
  obtain sg strat' where cs: "check_signals (update (fetched io) strat) = (sg, strat')"
    by (cases "check_signals (update (fetched io) strat)")
  show ?thesis
  proof (cases sg)
    case None
    with Some cs show ?thesis by (simp add: symbol_step_def)
  next
    case sig: (Some g)
    with cs check_signals_table obtain rows where "df strat' = Some rows" "rows \<noteq> []"
      by blast
    from handle_signal_cooled [OF this,
        of "ctl\<lparr>strategies := dict_set smb strat' (strategies ctl)\<rparr>" io smb g]
    show ?thesis using Some cs sig by (simp add: symbol_step_def)
  qed
qed

lemma record_price_times: "last_trade_times (record_price clock ctl smb) = last_trade_times ctl"
  by (simp add: record_price_def Let_def split: option.splits)

lemma foldl_record_price_times:
  "last_trade_times (foldl (record_price clock) ctl smbs) = last_trade_times ctl"
  by (induction smbs arbitrary: ctl) (simp_all add: record_price_times)

lemma update_history_data_times:
  "last_trade_times (update_history_data clock ctl) = last_trade_times ctl"
  by (simp add: update_history_data_def Let_def foldl_record_price_times)

lemma run_step_cooled:
  "cooled (last_trade_times ctl) (snd (run_step st ctl)) \<and>
   last_trade_times (fst (run_step st ctl)) =
     stamped (last_trade_times ctl) (snd (run_step st ctl))"
  by (cases st) (simp_all add: symbol_step_cooled update_history_data_times)

lemma run_steps_cooled:
  "cooled (last_trade_times ctl) (snd (run_steps sts ctl)) \<and>
   last_trade_times (fst (run_steps sts ctl)) =
     stamped (last_trade_times ctl) (snd (run_steps sts ctl))"
proof (induction sts arbitrary: ctl)
  case Nil
  then show ?case by simp
next
  case (Cons st sts)
  obtain ctl1 sent1 where 1: "run_step st ctl = (ctl1, sent1)" by (cases "run_step st ctl")
  obtain ctl2 sent2 where 2: "run_steps sts ctl1 = (ctl2, sent2)" by (cases "run_steps sts ctl1")
  from run_step_cooled [of ctl st] 1 Cons.IH [of ctl1] 2 show ?case
    by (simp add: cooled_append stamped_append)
qed

lemma run_loop_cooled:
  "cooled (last_trade_times ctl) (snd (run_loop its ctl)) \<and>
   last_trade_times (fst (run_loop its ctl)) =
     stamped (last_trade_times ctl) (snd (run_loop its ctl))"
proof (induction its arbitrary: ctl)
  case Nil
  then show ?case by simp
next
  case (Cons it its)
  show ?case
  proof (cases "is_running ctl")
    case False
    then show ?thesis by simp
  next
    case True
    obtain ctl1 sent1 where 1: "run_steps (iteration_steps it ctl) ctl = (ctl1, sent1)"
      by (cases "run_steps (iteration_steps it ctl) ctl")
    obtain ctl2 sent2 where 2: "run_loop its ctl1 = (ctl2, sent2)" by (cases "run_loop its ctl1")
    from run_steps_cooled [of ctl "iteration_steps it ctl"] 1 Cons.IH [of ctl1] 2 True
    show ?thesis by (simp add: cooled_append stamped_append)
  qed
qed

lemma handle_signal_inside:
  assumes "last_trade_times ctl smb = Some t0" and "now io - t0 \<le> 300"
  shows "handle_signal io smb sg strat ctl =
           (ctl\<lparr>last_signal := Some (smb @ '': '' @ signal_str sg)\<rparr>, [])"
  using assms by (simp add: handle_signal_def Let_def)

lemma handle_signal_outside:
  assumes "(case last_trade_times ctl smb of None \<Rightarrow> 0 | Some t \<Rightarrow> t) < now io - 300"
    and "df strat = Some rows" and "rows \<noteq> []"
  shows "snd (handle_signal io smb sg strat ctl) =
           [\<lparr>req_symbol = smb, req_side = sg, req_amount = order_amount smb,
             req_time = now io\<rparr>] \<and>
         last_trade_times (fst (handle_signal io smb sg strat ctl)) smb = Some (now io)"
proof -
  from execute_order_runs [OF assms(2,3)]
  obtain ctl' where "execute_order (exchange io) sg smb strat
      (ctl\<lparr>last_signal := Some (smb @ '': '' @ signal_str sg)\<rparr>) = Some ctl'"
    by fastforce
  with assms(1) show ?thesis
    by (simp add: handle_signal_def Let_def)
qed

lemma handle_signal_other:
  assumes "smb' \<noteq> smb"
  shows "last_trade_times (fst (handle_signal io smb sg strat ctl)) smb' =
         last_trade_times ctl smb'"
  using assms
  by (auto simp: handle_signal_def execute_order_def Let_def split: option.splits)

text \<open>
  The cooldown of the multi-symbol revision, on the orders that \<open>execute_order\<close> is
  called for (whether or not the exchange then accepts them). In every run of the loop, any
  two such orders for the same symbol are more than 300 seconds apart, whatever happens to
  other symbols. A signal that arrives within 300 seconds of the symbol's last trade time
  is dropped: nothing is sent and the controller keeps no trace of it but the
  \<open>last_signal\<close> text. A signal that arrives more than 300 seconds after it is sent and
  becomes the symbol's last trade time. Handling a signal of one symbol leaves the last
  trade time of every other symbol as it was.
\<close>

theorem cooldown_per_symbol:
  "(\<forall>i j. i < j \<and> j < length (snd (run_loop its ctl)) \<and>
      req_symbol (snd (run_loop its ctl) ! i) = req_symbol (snd (run_loop its ctl) ! j) \<longrightarrow>
      req_time (snd (run_loop its ctl) ! j) - req_time (snd (run_loop its ctl) ! i) > 300) \<and>
   (last_trade_times ctl smb = Some t0 \<and> now io - t0 \<le> 300 \<longrightarrow>
      handle_signal io smb sg strat ctl =
        (ctl\<lparr>last_signal := Some (smb @ '': '' @ signal_str sg)\<rparr>, [])) \<and>
   ((case last_trade_times ctl smb of None \<Rightarrow> 0 | Some t \<Rightarrow> t) < now io - 300 \<and>
    df strat = Some rows \<and> rows \<noteq> [] \<longrightarrow>
      snd (handle_signal io smb sg strat ctl) =
        [\<lparr>req_symbol = smb, req_side = sg, req_amount = order_amount smb,
          req_time = now io\<rparr>] \<and>
      last_trade_times (fst (handle_signal io smb sg strat ctl)) smb = Some (now io)) \<and>
   (smb' \<noteq> smb \<longrightarrow>
      last_trade_times (fst (handle_signal io smb sg strat ctl)) smb' =
      last_trade_times ctl smb') \<and>
   ((case last_trade_times ctl smb of None \<Rightarrow> 0 | Some t \<Rightarrow> t) < now io - 300 \<and>
    df strat = Some rows \<and> rows \<noteq> [] \<and> now io2 - now io \<le> 300 \<longrightarrow>
      snd (handle_signal io smb sg strat ctl) @
      snd (handle_signal io2 smb sg2 strat2 (fst (handle_signal io smb sg strat ctl))) =
        [\<lparr>req_symbol = smb, req_side = sg, req_amount = order_amount smb,
          req_time = now io\<rparr>])"
proof (intro conjI allI impI)
  fix i j
  assume "i < j \<and> j < length (snd (run_loop its ctl)) \<and>
      req_symbol (snd (run_loop its ctl) ! i) = req_symbol (snd (run_loop its ctl) ! j)"
  with run_loop_cooled [of ctl its]
  show "req_time (snd (run_loop its ctl) ! j) - req_time (snd (run_loop its ctl) ! i) > 300"
    by (intro cooled_spaced [of "last_trade_times ctl"]) simp_all
next
  assume "last_trade_times ctl smb = Some t0 \<and> now io - t0 \<le> 300"
  then show "handle_signal io smb sg strat ctl =
        (ctl\<lparr>last_signal := Some (smb @ '': '' @ signal_str sg)\<rparr>, [])"
    by (simp add: handle_signal_inside)
next
  assume a: "(case last_trade_times ctl smb of None \<Rightarrow> 0 | Some t \<Rightarrow> t) < now io - 300 \<and>
    df strat = Some rows \<and> rows \<noteq> []"
  then show "snd (handle_signal io smb sg strat ctl) =
        [\<lparr>req_symbol = smb, req_side = sg, req_amount = order_amount smb,
          req_time = now io\<rparr>]"
    using handle_signal_outside [of ctl smb io strat rows sg] by simp
  from a show "last_trade_times (fst (handle_signal io smb sg strat ctl)) smb = Some (now io)"
    using handle_signal_outside [of ctl smb io strat rows sg] by simp
next
  assume "smb' \<noteq> smb"
  then show "last_trade_times (fst (handle_signal io smb sg strat ctl)) smb' =
      last_trade_times ctl smb'"
    by (rule handle_signal_other)
next
  assume a: "(case last_trade_times ctl smb of None \<Rightarrow> 0 | Some t \<Rightarrow> t) < now io - 300 \<and>
    df strat = Some rows \<and> rows \<noteq> [] \<and> now io2 - now io \<le> 300"
  then have first: "snd (handle_signal io smb sg strat ctl) =
        [\<lparr>req_symbol = smb, req_side = sg, req_amount = order_amount smb,
          req_time = now io\<rparr>]"
    and stamp: "last_trade_times (fst (handle_signal io smb sg strat ctl)) smb = Some (now io)"
    using handle_signal_outside [of ctl smb io strat rows sg] by simp_all
  from a have "now io2 - now io \<le> 300" by simp
  from handle_signal_inside [OF stamp this, of sg2 strat2] first
  show "snd (handle_signal io smb sg strat ctl) @
      snd (handle_signal io2 smb sg2 strat2 (fst (handle_signal io smb sg strat ctl))) =
        [\<lparr>req_symbol = smb, req_side = sg, req_amount = order_amount smb,
          req_time = now io\<rparr>]"
    by simp
qed

lemma order_amount_eth: "order_amount ''ETH/USDT'' = 1 / 100"
  by (simp add: order_amount_def)

lemma two_rounds_sent:
  "snd (run_loop two_rounds eth_running) =
     [\<lparr>req_symbol = ''ETH/USDT'', req_side = BUY, req_amount = 1 / 100, req_time = 1000\<rparr>,
      \<lparr>req_symbol = ''ETH/USDT'', req_side = SELL, req_amount = 1 / 100, req_time = 1400\<rparr>]"
  by (simp add: two_rounds_def eth_running_def init_controller_def iteration_steps_def
      symbol_step_def tick_at_def filling_def flat_on_dip_def dip_row_def drop_row_def
      TrendRSIStrategy_def update_def check_signals_def exit_signals_def long_entry_def
      short_entry_def long_stop_loss_def long_take_profit_def long_rsi_exit_def Let_def
      handle_signal_def execute_order_def trade_price_def order_amount_eth
      update_history_data_def record_price_def last_100_def)

text \<open>
  The witness: in the run of two iterations both orders are sent, 400 seconds apart. After a
  trade at 1000, a signal at 1200 is dropped and a signal at 1400 is sent; the BTC entry is
  untouched; and of the signals at 1000 and 1200 on a fresh controller only the first is
  sent.
\<close>

theorem cooldown_per_symbol_witness:
  "(0::nat) < 1 \<and> 1 < length (snd (run_loop two_rounds eth_running)) \<and>
   req_symbol (snd (run_loop two_rounds eth_running) ! 0) =
     req_symbol (snd (run_loop two_rounds eth_running) ! 1) \<and>
   req_time (snd (run_loop two_rounds eth_running) ! 1) -
     req_time (snd (run_loop two_rounds eth_running) ! 0) > 300 \<and>
   handle_signal (tick_at 1200 None) ''ETH/USDT'' SELL flat_on_dip
       (eth_running\<lparr>last_trade_times := [''ETH/USDT'' \<mapsto> 1000]\<rparr>) =
     (eth_running\<lparr>last_trade_times := [''ETH/USDT'' \<mapsto> 1000],
                  last_signal := Some ''ETH/USDT: SELL''\<rparr>, []) \<and>
   snd (handle_signal (tick_at 1400 None) ''ETH/USDT'' SELL flat_on_dip
       (eth_running\<lparr>last_trade_times := [''ETH/USDT'' \<mapsto> 1000]\<rparr>)) =
     [\<lparr>req_symbol = ''ETH/USDT'', req_side = SELL, req_amount = 1 / 100, req_time = 1400\<rparr>] \<and>
   last_trade_times (fst (handle_signal (tick_at 1400 None) ''ETH/USDT'' SELL flat_on_dip
       (eth_running\<lparr>last_trade_times := [''ETH/USDT'' \<mapsto> 1000]\<rparr>))) ''BTC/USDT'' = None \<and>
   snd (handle_signal (tick_at 1000 None) ''ETH/USDT'' BUY flat_on_dip eth_running) @
   snd (handle_signal (tick_at 1200 None) ''ETH/USDT'' SELL flat_on_dip
         (fst (handle_signal (tick_at 1000 None) ''ETH/USDT'' BUY flat_on_dip eth_running))) =
     [\<lparr>req_symbol = ''ETH/USDT'', req_side = BUY, req_amount = 1 / 100, req_time = 1000\<rparr>]"
proof -
  let ?after = "eth_running\<lparr>last_trade_times := [''ETH/USDT'' \<mapsto> 1000]\<rparr>"
  have len: "(0::nat) < 1 \<and> 1 < length (snd (run_loop two_rounds eth_running)) \<and>
      req_symbol (snd (run_loop two_rounds eth_running) ! 0) =
        req_symbol (snd (run_loop two_rounds eth_running) ! 1)"
    by (simp add: two_rounds_sent)
  have tbl: "df flat_on_dip = Some [dip_row, dip_row] \<and> [dip_row, dip_row] \<noteq> []"
    by (simp add: flat_on_dip_def)
  have p1: "req_time (snd (run_loop two_rounds eth_running) ! 1) -
      req_time (snd (run_loop two_rounds eth_running) ! 0) > 300"
    using cooldown_per_symbol [where its = two_rounds and ctl = eth_running] len by blast
  have h2: "last_trade_times ?after ''ETH/USDT'' = Some 1000 \<and>
      now (tick_at 1200 None) - 1000 \<le> 300"
    by (simp add: tick_at_def)
  have p2: "handle_signal (tick_at 1200 None) ''ETH/USDT'' SELL flat_on_dip ?after =
      (?after\<lparr>last_signal := Some (''ETH/USDT'' @ '': '' @ signal_str SELL)\<rparr>, [])"
    using cooldown_per_symbol [where ctl = ?after and smb = "''ETH/USDT''" and ?t0.0 = 1000
        and io = "tick_at 1200 None" and sg = SELL and strat = flat_on_dip] h2
    by blast
  have h3: "(case last_trade_times ?after ''ETH/USDT'' of None \<Rightarrow> 0 | Some t \<Rightarrow> t)
        < now (tick_at 1400 None) - 300 \<and>
      df flat_on_dip = Some [dip_row, dip_row] \<and> [dip_row, dip_row] \<noteq> []"
    using tbl by (simp add: tick_at_def)
  have p3: "snd (handle_signal (tick_at 1400 None) ''ETH/USDT'' SELL flat_on_dip ?after) =
      [\<lparr>req_symbol = ''ETH/USDT'', req_side = SELL, req_amount = order_amount ''ETH/USDT'',
        req_time = now (tick_at 1400 None)\<rparr>]"
    using cooldown_per_symbol [where ctl = ?after and smb = "''ETH/USDT''"
        and io = "tick_at 1400 None" and sg = SELL and strat = flat_on_dip
        and rows = "[dip_row, dip_row]"] h3
    by blast
  have h4: "''BTC/USDT'' \<noteq> ''ETH/USDT''" by simp
  have p4: "last_trade_times (fst (handle_signal (tick_at 1400 None) ''ETH/USDT'' SELL
      flat_on_dip ?after)) ''BTC/USDT'' = last_trade_times ?after ''BTC/USDT''"
    using cooldown_per_symbol [where ctl = ?after and smb = "''ETH/USDT''"
        and smb' = "''BTC/USDT''" and io = "tick_at 1400 None" and sg = SELL
        and strat = flat_on_dip] h4
    by blast
  have h5: "(case last_trade_times eth_running ''ETH/USDT'' of None \<Rightarrow> 0 | Some t \<Rightarrow> t)
        < now (tick_at 1000 None) - 300 \<and>
      df flat_on_dip = Some [dip_row, dip_row] \<and> [dip_row, dip_row] \<noteq> [] \<and>
      now (tick_at 1200 None) - now (tick_at 1000 None) \<le> 300"
    using tbl by (simp add: tick_at_def eth_running_def init_controller_def)
  have p5: "snd (handle_signal (tick_at 1000 None) ''ETH/USDT'' BUY flat_on_dip eth_running) @
      snd (handle_signal (tick_at 1200 None) ''ETH/USDT'' SELL flat_on_dip
         (fst (handle_signal (tick_at 1000 None) ''ETH/USDT'' BUY flat_on_dip eth_running))) =
      [\<lparr>req_symbol = ''ETH/USDT'', req_side = BUY, req_amount = order_amount ''ETH/USDT'',
        req_time = now (tick_at 1000 None)\<rparr>]"
    using cooldown_per_symbol [where ctl = eth_running and smb = "''ETH/USDT''"
        and io = "tick_at 1000 None" and sg = BUY and strat = flat_on_dip
        and rows = "[dip_row, dip_row]" and ?io2.0 = "tick_at 1200 None" and ?sg2.0 = SELL
        and ?strat2.0 = flat_on_dip] h5
    by blast
  have v: "order_amount ''ETH/USDT'' = 1 / 100" "now (tick_at 1400 None) = 1400"
    "now (tick_at 1000 None) = 1000" "''ETH/USDT'' @ '': '' @ signal_str SELL = ''ETH/USDT: SELL''"
    "last_trade_times ?after ''BTC/USDT'' = None"
    by (simp_all add: order_amount_eth tick_at_def signal_str_def)
  from len p1 p2 p3 p4 p5 show ?thesis
    unfolding v by simp
qed

subsection \<open>The trade log after an execution\<close>

lemma take_19_Cons: "take 19 xs = take 19 ys \<Longrightarrow> take 20 (x # xs) = take 20 (x # ys)"
  by (simp add: take_Cons')

text \<open>
  C10. When the exchange returns an order, \<open>execute_order\<close> puts the fill at the front of
  the trade log and cuts the log to its first 20 records, so the log then has at most 20
  records and the daily realized PnL read from the controller is computed from the fill and
  the 19 records that were newest before it: two controllers that agree on those 19 records
  report the same figure after the same execution, whatever older fills they held.
\<close>

theorem fill_heads_log_of_twenty:
  assumes "placed gw = Some ord" and "execute_order gw sg smb strat ctl = Some ctl'"
  shows "\<exists>fill.
           trades ctl' = take 20 (fill # trades ctl) \<and>
           trades ctl' = fill # take 19 (trades ctl) \<and>
           time fill = TStr (trade_time (exec_clock gw) ord) \<and>
           side fill = signal_str sg \<and> amount fill = order_amount smb \<and>
           symbol fill = Some smb \<and>
           length (trades ctl') \<le> 20 \<and>
           calculate_daily_realized_pnl c (trades ctl') =
             calculate_daily_realized_pnl c (fill # take 19 (trades ctl)) \<and>
           (\<forall>other other'.
              take 19 (trades other) = take 19 (trades ctl) \<and>
              execute_order gw sg smb strat other = Some other' \<longrightarrow>
              calculate_daily_realized_pnl c (trades other') =
              calculate_daily_realized_pnl c (trades ctl'))"
proof -
  from assms obtain p where p: "trade_price ord strat = Some p"
    by (auto simp: execute_order_def split: option.splits)
  define fill where "fill = \<lparr>time = TStr (trade_time (exec_clock gw) ord), side = signal_str sg,
      price = p, amount = order_amount smb, symbol = Some smb\<rparr>"
  have t: "trades ctl' = take 20 (fill # trades ctl)"
    using assms p by (auto simp: execute_order_def fill_def Let_def)
  have t19: "take 20 (fill # trades ctl) = fill # take 19 (trades ctl)"
    by (simp add: take_Cons')
  have same: "trades other' = trades ctl'"
    if "take 19 (trades other) = take 19 (trades ctl)"
      "execute_order gw sg smb strat other = Some other'" for other other'
  proof -
    have "trades other' = take 20 (fill # trades other)"
      using that(2) assms(1) p by (auto simp: execute_order_def fill_def Let_def)
    with take_19_Cons [OF that(1), of fill] t show ?thesis by simp
  qed
  have len: "length (trades ctl') \<le> 20" by (simp add: t)
  have t': "trades ctl' = fill # take 19 (trades ctl)"
    using t t19 by simp
  have fields: "time fill = TStr (trade_time (exec_clock gw) ord)" "side fill = signal_str sg"
    "amount fill = order_amount smb" "symbol fill = Some smb"
    by (simp_all add: fill_def)
  have pnl: "calculate_daily_realized_pnl c (trades ctl') =
      calculate_daily_realized_pnl c (fill # take 19 (trades ctl))"
    by (simp only: t')
  have others: "\<forall>other other'.
      take 19 (trades other) = take 19 (trades ctl) \<and>
      execute_order gw sg smb strat other = Some other' \<longrightarrow>
      calculate_daily_realized_pnl c (trades other') =
      calculate_daily_realized_pnl c (trades ctl')"
  proof (intro allI impI)
    fix other other'
    assume "take 19 (trades other) = take 19 (trades ctl) \<and>
      execute_order gw sg smb strat other = Some other'"
    then have "trades other' = trades ctl'" using same by blast
    then show "calculate_daily_realized_pnl c (trades other') =
      calculate_daily_realized_pnl c (trades ctl')"
      by (simp only:)
  qed
  show ?thesis
    using t t' fields len pnl others by (intro exI [of _ fill] conjI)
qed

lemma str_int_fill: "str_int 1704189600000 = ''1704189600000''"
  by (simp add: str_int_def digits.simps char_of_def bit_0)

theorem fill_heads_log_of_twenty_witness:
  "placed filling =
     Some \<lparr>timestamp = Millis 1704189600000, average = Some (181 / 2), order_price = None\<rparr> \<and>
   length (trades crowded) = 20 \<and>
   (\<exists>ctl' fill.
      execute_order filling BUY ''ETH/USDT'' flat_on_dip crowded = Some ctl' \<and>
      trades ctl' = fill # take 19 (trades crowded) \<and>
      time fill = TStr ''1704189600000'' \<and> side fill = ''BUY'' \<and>
      length (trades ctl') \<le> 20)"
proof -
  have plc: "placed filling =
      Some \<lparr>timestamp = Millis 1704189600000, average = Some (181 / 2), order_price = None\<rparr>"
    by (simp add: filling_def)
  have len: "length (trades crowded) = 20"
    by (simp add: crowded_def)
  obtain ctl' where run: "execute_order filling BUY ''ETH/USDT'' flat_on_dip crowded = Some ctl'"
    by (simp add: execute_order_def filling_def trade_price_def Let_def)
  from fill_heads_log_of_twenty [OF plc run, of jan2]
  obtain fill where all:
    "trades ctl' = take 20 (fill # trades crowded) \<and>
     trades ctl' = fill # take 19 (trades crowded) \<and>
     time fill = TStr (trade_time (exec_clock filling)
       \<lparr>timestamp = Millis 1704189600000, average = Some (181 / 2), order_price = None\<rparr>) \<and>
     side fill = signal_str BUY \<and> amount fill = order_amount ''ETH/USDT'' \<and>
     symbol fill = Some ''ETH/USDT'' \<and>
     length (trades ctl') \<le> 20 \<and>
     calculate_daily_realized_pnl jan2 (trades ctl') =
       calculate_daily_realized_pnl jan2 (fill # take 19 (trades crowded)) \<and>
     (\<forall>other other'.
        take 19 (trades other) = take 19 (trades crowded) \<and>
        execute_order filling BUY ''ETH/USDT'' flat_on_dip other = Some other' \<longrightarrow>
        calculate_daily_realized_pnl jan2 (trades other') =
        calculate_daily_realized_pnl jan2 (trades ctl'))" ..
  from all have f1: "trades ctl' = fill # take 19 (trades crowded)"
    by (elim conjE)
  from all have f2: "time fill = TStr (trade_time (exec_clock filling)
       \<lparr>timestamp = Millis 1704189600000, average = Some (181 / 2), order_price = None\<rparr>)"
    by (elim conjE)
  from all have f3: "side fill = signal_str BUY"
    by (elim conjE)
  from all have f4: "length (trades ctl') \<le> 20"
    by (elim conjE)
  have "trade_time (exec_clock filling)
      \<lparr>timestamp = Millis 1704189600000, average = Some (181 / 2), order_price = None\<rparr> =
      ''1704189600000''"
    by (simp add: trade_time_def str_int_fill)
  with f2 f3 have "time fill = TStr ''1704189600000''" "side fill = ''BUY''"
    by (simp_all add: signal_str_def)
  with f1 f4 run have "\<exists>ctl' fill.
      execute_order filling BUY ''ETH/USDT'' flat_on_dip crowded = Some ctl' \<and>
      trades ctl' = fill # take 19 (trades crowded) \<and>
      time fill = TStr ''1704189600000'' \<and> side fill = ''BUY'' \<and>
      length (trades ctl') \<le> 20"
    by (intro exI [of _ ctl'] exI [of _ fill] conjI)
  with plc len show ?thesis by (intro conjI)
qed

subsection \<open>The session baseline\<close>

lemma record_price_baseline:
  "session_start_nav (record_price clock ctl smb) = session_start_nav ctl"
  by (simp add: record_price_def Let_def split: option.splits)

lemma foldl_record_price_baseline:
  "session_start_nav (foldl (record_price clock) ctl smbs) = session_start_nav ctl"
  by (induction smbs arbitrary: ctl) (simp_all add: record_price_baseline)

lemma update_history_data_baseline:
  "session_start_nav (update_history_data clock ctl) = session_start_nav ctl"
  by (simp add: update_history_data_def Let_def foldl_record_price_baseline)

lemma execute_order_baseline:
  "execute_order gw sg smb strat ctl = Some ctl' \<Longrightarrow>
   session_start_nav ctl' = session_start_nav ctl"
  by (auto simp: execute_order_def Let_def split: option.splits)

lemma handle_signal_baseline:
  "session_start_nav (fst (handle_signal io smb sg strat ctl)) = session_start_nav ctl"
proof (cases "execute_order (exchange io) sg smb strat
    (ctl\<lparr>last_signal := Some (smb @ '': '' @ signal_str sg)\<rparr>)")
  case None
  then show ?thesis by (simp add: handle_signal_def Let_def)
next
  case (Some ctl2)
  from execute_order_baseline [OF this] Some show ?thesis
    by (simp add: handle_signal_def Let_def)
qed

lemma symbol_step_baseline:
  "session_start_nav (fst (symbol_step io smb ctl)) = session_start_nav ctl"
proof (cases "map_of (strategies ctl) smb")
  case None
  then show ?thesis by (simp add: symbol_step_def)
next
  case (Some strat)
  obtain sg strat' where cs: "check_signals (update (fetched io) strat) = (sg, strat')"
    by (cases "check_signals (update (fetched io) strat)")
  show ?thesis
  proof (cases sg)
    case None
    with Some cs show ?thesis by (simp add: symbol_step_def)
  next
    case sig: (Some g)
    with Some cs show ?thesis
      by (simp add: symbol_step_def handle_signal_baseline)
  qed
qed

lemma run_step_baseline:
  "session_start_nav (fst (run_step st ctl)) = session_start_nav ctl"
  by (cases st) (simp_all add: symbol_step_baseline update_history_data_baseline)

lemma run_steps_baseline:
  "session_start_nav (fst (run_steps sts ctl)) = session_start_nav ctl"
proof (induction sts arbitrary: ctl)
  case Nil
  then show ?case by simp
next
  case (Cons st sts)
  obtain ctl1 sent1 where 1: "run_step st ctl = (ctl1, sent1)" by (cases "run_step st ctl")
  obtain ctl2 sent2 where 2: "run_steps sts ctl1 = (ctl2, sent2)" by (cases "run_steps sts ctl1")
  from run_step_baseline [of st ctl] 1 Cons.IH [of ctl1] 2 show ?case by simp
qed

lemma stop_baseline:
  "session_start_nav (snd (stop pending ctl)) = session_start_nav ctl"
  by (simp add: stop_def run_steps_baseline)

lemma start_nav_fold:
  assumes "start_nav ctl (fetch_ticker io) acc totals = Some v"
  shows "v = foldl (\<lambda>acc (coin, qty).
                      if coin = ''USDT'' then acc else acc + qty * start_price ctl io coin)
                acc totals"
  using assms
proof (induction totals arbitrary: acc)
  case Nil
  then show ?case by simp
next
  case (Cons cq totals)
  obtain coin qty where cq: "cq = (coin, qty)" by (cases cq)
  show ?case
  proof (cases "coin = ''USDT''")
    case True
    with Cons cq show ?thesis by simp
  next
    case False
    show ?thesis
    proof (cases "cached_price ctl coin = 0")
      case cached: False
      with Cons.prems False cq
      have "start_nav ctl (fetch_ticker io) (acc + qty * cached_price ctl coin) totals = Some v"
        by simp
      from Cons.IH [OF this] False cached cq show ?thesis
        by (simp add: start_price_def)
    next
      case True
      show ?thesis
      proof (cases "fetch_ticker io (coin @ ''/USDT'')")
        case TickerFailed
        with Cons.prems False True cq
        have "start_nav ctl (fetch_ticker io) (acc + qty * 0) totals = Some v" by simp
        from Cons.IH [OF this] False True TickerFailed cq show ?thesis
          by (simp add: start_price_def)
      next
        case (Last l)
        show ?thesis
        proof (cases l)
          case None
          with Cons.prems False True cq Last show ?thesis by simp
        next
          case (Some p)
          with Cons.prems False True cq Last
          have "start_nav ctl (fetch_ticker io) (acc + qty * p) totals = Some v" by simp
          from Cons.IH [OF this] False True Last Some cq show ?thesis
            by (simp add: start_price_def)
        qed
      qed
    qed
  qed
qed

lemma start_price_cong:
  "market_prices ctl' = market_prices ctl \<Longrightarrow> start_price ctl' io = start_price ctl io"
  by (rule ext) (simp add: start_price_def cached_price_def)

lemma start_sets_baseline:
  assumes "\<not> is_running ctl" and "start_balance io = Balance (Some totals)"
    and "start io md symbols ctl = (Inr msg, ctl')"
  shows "session_start_nav ctl' = Some (nav (start_price ctl io) totals) \<and> is_running ctl'"
proof -
  let ?ctl3 = "ctl\<lparr>mode := md, active_symbols := symbols, strategies := [],
      last_trade_times := Map.empty,
      strategies := foldl (\<lambda>d smb. dict_set smb (update (first_fetch io smb) (new_strategy smb)) d)
        [] symbols,
      balance := start_balance io\<rparr>"
  have sp: "start_price ?ctl3 io = start_price ctl io"
    by (rule start_price_cong) simp
  show ?thesis
  proof (cases "start_nav ?ctl3 (fetch_ticker io) (total_get totals ''USDT'') totals")
    case None
    with assms show ?thesis by (simp add: start_def Let_def)
  next
    case (Some v)
    from start_nav_fold [OF Some] have "v = nav (start_price ?ctl3 io) totals"
      by (simp only: nav_def)
    then have "v = nav (start_price ctl io) totals"
      by (simp only: sp)
    moreover from Some assms
    have "session_start_nav ctl' = Some v \<and> is_running ctl'"
      by (auto simp: start_def Let_def)
    ultimately show ?thesis by simp
  qed
qed

subsection \<open>The status query\<close>

lemma get_status_returns:
  assumes "pnl_history ctl = [] \<or> session_start_nav ctl \<noteq> None"
  shows "\<exists>s. get_status c ctl = Inr s"
  using assms by (auto simp: get_status_def Let_def)

text \<open>
  C7. \<open>get_status\<close> is to return a snapshot in every reachable state. It does whenever
  no PnL point has been recorded or the session baseline is set (\<open>get_status_returns\<close>).
  But \<open>start\<close> sets the baseline only when the balance fetch returns totals, and
  \<open>update_history_data\<close>, which guards its own read of the baseline with \<open>hasattr\<close>,
  appends a PnL point all the same: after a start whose balance fetch failed and one
  iteration of the loop, \<open>get_status\<close> raises AttributeError.
\<close>

theorem get_status_raises_without_baseline:
  "fst (start no_balance_io ''SINGLE'' [''ETH/USDT''] init_controller) =
     Inr ''Started SINGLE mode'' \<and>
   pnl_history (fst (run_loop [quiet_round]
     (snd (start no_balance_io ''SINGLE'' [''ETH/USDT''] init_controller)))) =
     [\<lparr>p_time = 1000, p_value = 0\<rparr>] \<and>
   session_start_nav (fst (run_loop [quiet_round]
     (snd (start no_balance_io ''SINGLE'' [''ETH/USDT''] init_controller)))) = None \<and>
   get_status jan2 (fst (run_loop [quiet_round]
     (snd (start no_balance_io ''SINGLE'' [''ETH/USDT''] init_controller)))) =
     Inl AttributeError"
  by (simp add: start_def no_balance_io_def init_controller_def Let_def new_strategy_def
      update_def quiet_round_def iteration_steps_def symbol_step_def tick_at_def
      TrendRSIStrategy_def check_signals_def update_history_data_def record_price_def
      last_100_def get_status_def)

text \<open>
  C9, as stated, has \<open>stop\<close> clear the session baseline. \<open>stop\<close> only clears
  \<open>is_running\<close> and awaits the loop: after a start with 1000 USDT the baseline is 1000, and
  it still is after \<open>stop\<close> has returned.
\<close>

theorem baseline_after_stop_counterexample:
  "fst (start funded_io ''SINGLE'' [''ETH/USDT''] init_controller) =
     Inr ''Started SINGLE mode'' \<and>
   session_start_nav (snd (start funded_io ''SINGLE'' [''ETH/USDT''] init_controller)) =
     Some 1000 \<and>
   fst (stop [] (snd (start funded_io ''SINGLE'' [''ETH/USDT''] init_controller))) =
     ''Bot stopped'' \<and>
   is_running (snd (stop [] (snd (start funded_io ''SINGLE'' [''ETH/USDT''] init_controller)))) =
     False \<and>
   session_start_nav
     (snd (stop [] (snd (start funded_io ''SINGLE'' [''ETH/USDT''] init_controller)))) =
     Some 1000"
  by (simp add: start_def stop_def funded_io_def init_controller_def Let_def total_get_def
      new_strategy_def update_def)

text \<open>
  C9, amended. A call of \<open>start\<close> on a controller that is not running, during which the
  balance fetch returns totals and which returns its message, sets the session baseline to
  the net asset value of those totals (the USDT total plus every other coin at its cached
  price or else the ticker's, 0 when neither is known) and marks the controller running.
  \<open>stop\<close> leaves the baseline as it was, whatever the loop still had to finish: the
  baseline stays until a later start sets it again.
\<close>

theorem baseline_set_by_start_kept_by_stop:
  "(\<not> is_running ctl \<and> start_balance io = Balance (Some totals) \<and>
    start io md symbols ctl = (Inr msg, ctl') \<longrightarrow>
      session_start_nav ctl' = Some (nav (start_price ctl io) totals) \<and> is_running ctl') \<and>
   session_start_nav (snd (stop pending ctl2)) = session_start_nav ctl2"
proof (intro conjI impI)
  assume a: "\<not> is_running ctl \<and> start_balance io = Balance (Some totals) \<and>
    start io md symbols ctl = (Inr msg, ctl')"
  then have "\<not> is_running ctl" "start_balance io = Balance (Some totals)"
    "start io md symbols ctl = (Inr msg, ctl')"
    by simp_all
  from start_sets_baseline [OF this]
  show "session_start_nav ctl' = Some (nav (start_price ctl io) totals)" and "is_running ctl'"
    by simp_all
next
  show "session_start_nav (snd (stop pending ctl2)) = session_start_nav ctl2"
    by (rule stop_baseline)
qed

theorem baseline_set_by_start_kept_by_stop_witness:
  "\<not> is_running init_controller \<and>
   start_balance funded_io = Balance (Some [(''USDT'', 1000)]) \<and>
   start funded_io ''SINGLE'' [''ETH/USDT''] init_controller =
     (Inr ''Started SINGLE mode'', started_funded) \<and>
   session_start_nav started_funded = Some 1000 \<and> is_running started_funded \<and>
   session_start_nav (snd (stop [HistoryStep 2000] started_funded)) = Some 1000"
proof -
  have h: "\<not> is_running init_controller \<and>
      start_balance funded_io = Balance (Some [(''USDT'', 1000)]) \<and>
      start funded_io ''SINGLE'' [''ETH/USDT''] init_controller =
        (Inr ''Started SINGLE mode'', started_funded)"
    by (simp add: start_def funded_io_def init_controller_def Let_def total_get_def
        new_strategy_def update_def started_funded_def)
  have n: "nav (start_price init_controller funded_io) [(''USDT'', 1000)] = 1000"
    by (simp add: nav_def total_get_def)
  note inst = baseline_set_by_start_kept_by_stop [where ctl = init_controller
      and io = funded_io and totals = "[(''USDT'', 1000)]" and md = "''SINGLE''"
      and symbols = "[''ETH/USDT'']" and msg = "''Started SINGLE mode''"
      and ctl' = started_funded and pending = "[HistoryStep 2000]"
      and ?ctl2.0 = started_funded]
  from inst h have s: "session_start_nav started_funded =
      Some (nav (start_price init_controller funded_io) [(''USDT'', 1000)])"
    and r: "is_running started_funded"
    by blast+
  from inst have k: "session_start_nav (snd (stop [HistoryStep 2000] started_funded)) =
      session_start_nav started_funded"
    by (rule conjunct2)
  from s n have s': "session_start_nav started_funded = Some 1000" by simp
  with k have "session_start_nav (snd (stop [HistoryStep 2000] started_funded)) = Some 1000"
    by simp
  with h s' r show ?thesis by (intro conjI) simp_all
qed

section \<open>The ledger on the log that the controller writes\<close>

lemma str_int_ten: "str_int 1704189600000 = ''1704189600000''"
  by (simp add: str_int_def digits.simps char_of_def bit_0)

lemma str_int_eleven: "str_int 1704193200000 = ''1704193200000''"
  by (simp add: str_int_def digits.simps char_of_def bit_0)

lemma two_fills_log:
  "map_option trades two_fills =
     Some [\<lparr>time = TStr ''1704193200000'', side = ''SELL'', price = 110, amount = 1 / 100,
            symbol = Some ''ETH/USDT''\<rparr>,
           \<lparr>time = TStr ''1704189600000'', side = ''BUY'', price = 100, amount = 1 / 100,
            symbol = Some ''ETH/USDT''\<rparr>]"
  by (simp add: two_fills_def execute_order_def buy_at_ten_def sell_at_eleven_def
      trade_price_def trade_time_def str_int_ten str_int_eleven signal_str_def
      order_amount_eth eth_running_def init_controller_def Let_def)

text \<open>
  C1. A purchase of 0.01 at 100 and a sale of 0.01 at 110, both filled on the query day, are
  to yield 0.01 times (110 - 100) = 0.1. \<open>execute_order\<close> records each fill with the
  string of its millisecond timestamp; the ledger reads a string time with
  \<open>datetime.fromisoformat\<close> only, which rejects such a string, and skips the record. On
  the log that the controller itself wrote the function returns 0; on the same two fills
  with their times in ISO form, as the single-symbol revision records them, it returns 0.1.
\<close>

theorem own_log_realizes_nothing:
  "map_option trades two_fills =
     Some [\<lparr>time = TStr ''1704193200000'', side = ''SELL'', price = 110, amount = 1 / 100,
            symbol = Some ''ETH/USDT''\<rparr>,
           \<lparr>time = TStr ''1704189600000'', side = ''BUY'', price = 100, amount = 1 / 100,
            symbol = Some ''ETH/USDT''\<rparr>] \<and>
   calculate_daily_realized_pnl jan2
     [\<lparr>time = TStr ''1704193200000'', side = ''SELL'', price = 110, amount = 1 / 100,
       symbol = Some ''ETH/USDT''\<rparr>,
      \<lparr>time = TStr ''1704189600000'', side = ''BUY'', price = 100, amount = 1 / 100,
       symbol = Some ''ETH/USDT''\<rparr>] = 0 \<and>
   calculate_daily_realized_pnl jan2
     [\<lparr>time = TStr ''2024-01-02T11:00:00'', side = ''SELL'', price = 110, amount = 1 / 100,
       symbol = Some ''ETH/USDT''\<rparr>,
      \<lparr>time = TStr ''2024-01-02T10:00:00'', side = ''BUY'', price = 100, amount = 1 / 100,
       symbol = Some ''ETH/USDT''\<rparr>] = 1 / 10"
proof (intro conjI)
  show "map_option trades two_fills =
     Some [\<lparr>time = TStr ''1704193200000'', side = ''SELL'', price = 110, amount = 1 / 100,
            symbol = Some ''ETH/USDT''\<rparr>,
           \<lparr>time = TStr ''1704189600000'', side = ''BUY'', price = 100, amount = 1 / 100,
            symbol = Some ''ETH/USDT''\<rparr>]"
    by (rule two_fills_log)
  show "calculate_daily_realized_pnl jan2
     [\<lparr>time = TStr ''1704193200000'', side = ''SELL'', price = 110, amount = 1 / 100,
       symbol = Some ''ETH/USDT''\<rparr>,
      \<lparr>time = TStr ''1704189600000'', side = ''BUY'', price = 100, amount = 1 / 100,
       symbol = Some ''ETH/USDT''\<rparr>] = 0"
    by (simp add: calculate_daily_realized_pnl_def fifo_ledger_def sorted_trades_def
        str_key_def trade_step_def parse_time_def jan2_def)
  show "calculate_daily_realized_pnl jan2
     [\<lparr>time = TStr ''2024-01-02T11:00:00'', side = ''SELL'', price = 110, amount = 1 / 100,
       symbol = Some ''ETH/USDT''\<rparr>,
      \<lparr>time = TStr ''2024-01-02T10:00:00'', side = ''BUY'', price = 100, amount = 1 / 100,
       symbol = Some ''ETH/USDT''\<rparr>] = 1 / 10"
    by (simp add: calculate_daily_realized_pnl_def fifo_ledger_def sorted_trades_def
        str_key_def trade_step_def parse_time_def trade_symbol_def upper_BUY upper_SELL
        Let_def jan2_def)
qed

section \<open>The cooldown of the single-symbol revision\<close>

text \<open>
  C6. An order is to be executed only when the cooldown of 300 seconds has elapsed since
  the last executed trade. In the single-symbol revision the exchange accepts a BUY at clock
  1000 and answers with an order whose \<open>'timestamp'\<close> is \<open>None\<close>: \<open>execute_order\<close>
  raises after the order has been placed, the assignment of \<open>last_trade_time\<close> is skipped
  and the trade is not recorded. A SELL signal 10 seconds later passes the cooldown test
  and is executed as well: two orders within the window.
\<close>

theorem unstamped_order_skips_cooldown:
  "handle_signal_v1 \<lparr>now_v1 = 1000, exchange_v1 = unstamped\<rparr> ''BTC/USDT'' BUY fresh_v1 =
     (fresh_v1\<lparr>last_signal_v1 := Some BUY\<rparr>,
      [\<lparr>req_symbol = ''BTC/USDT'', req_side = BUY, req_amount = 1 / 1000, req_time = 1000\<rparr>]) \<and>
   handle_signal_v1 \<lparr>now_v1 = 1010, exchange_v1 = unstamped\<rparr> ''BTC/USDT'' SELL
       (fresh_v1\<lparr>last_signal_v1 := Some BUY\<rparr>) =
     (fresh_v1\<lparr>last_signal_v1 := Some SELL\<rparr>,
      [\<lparr>req_symbol = ''BTC/USDT'', req_side = SELL, req_amount = 1 / 1000, req_time = 1010\<rparr>]) \<and>
   last_trade_time (fresh_v1\<lparr>last_signal_v1 := Some SELL\<rparr>) = None \<and>
   trades_v1 (fresh_v1\<lparr>last_signal_v1 := Some SELL\<rparr>) = []"
  by (simp add: handle_signal_v1_def execute_order_v1_def unstamped_def fresh_v1_def Let_def)

end
